theory Spec2Isabelle
  imports Main "HOL-Library.AList"
begin

section \<open>JavaScript strings and values\<close>

text \<open>
  A JavaScript string is modelled as a \<open>string\<close>: a list of code units, each below 256.
  The helpers below are the string methods the sources call, restricted to that range.
\<close>

definition is_digit :: "char \<Rightarrow> bool" where
  \<comment> \<open>the regular expression class \<open>\d\<close>\<close>
  "is_digit c = (48 \<le> (of_char c :: nat) \<and> (of_char c :: nat) \<le> 57)"

definition is_space :: "char \<Rightarrow> bool" where
  \<comment> \<open>the class \<open>\s\<close>, which is also what \<open>trim\<close> strips: tab, line feed, vertical tab,
      form feed, carriage return, space, no-break space\<close>
  "is_space c = ((of_char c :: nat) \<in> {9, 10, 11, 12, 13, 32, 160})"

definition to_lower_char :: "char \<Rightarrow> char" where
  "to_lower_char c =
     (let n = (of_char c :: nat)
      in if (65 \<le> n \<and> n \<le> 90) \<or> (192 \<le> n \<and> n \<le> 222 \<and> n \<noteq> 215)
         then char_of (n + 32) else c)"

definition toLowerCase :: "string \<Rightarrow> string" where
  "toLowerCase s = map to_lower_char s"

definition trim :: "string \<Rightarrow> string" where
  "trim s = rev (dropWhile is_space (rev (dropWhile is_space s)))"

fun startsWith :: "string \<Rightarrow> string \<Rightarrow> bool" where
  "startsWith s [] = True"
| "startsWith [] (k # ks) = False"
| "startsWith (c # cs) (k # ks) = (c = k \<and> startsWith cs ks)"

fun str_includes :: "string \<Rightarrow> string \<Rightarrow> bool" where
  "str_includes [] k = startsWith [] k"
| "str_includes (c # cs) k = (startsWith (c # cs) k \<or> str_includes cs k)"

fun split_on :: "char \<Rightarrow> string \<Rightarrow> string list" where
  \<comment> \<open>\<open>s.split(sep)\<close> for a one-character separator: never empty, \<open>"".split(".")\<close> is \<open>[""]\<close>\<close>
  "split_on sep [] = [[]]"
| "split_on sep (c # cs) =
     (if c = sep then [] # split_on sep cs
      else (case split_on sep cs of
              [] \<Rightarrow> [[c]]
            | piece # pieces \<Rightarrow> (c # piece) # pieces))"

fun join :: "string \<Rightarrow> string list \<Rightarrow> string" where
  \<comment> \<open>\<open>xs.join(sep)\<close>\<close>
  "join sep [] = []"
| "join sep [x] = x"
| "join sep (x # y # ys) = x @ sep @ join sep (y # ys)"

definition at_index :: "'a list \<Rightarrow> nat \<Rightarrow> 'a option" where
  \<comment> \<open>\<open>a[i]\<close>: \<open>undefined\<close> (here \<open>None\<close>) past the end\<close>
  "at_index xs i = (if i < length xs then Some (xs ! i) else None)"

text \<open>
  JavaScript values, as far as the sources inspect them: the primitives and a reference to
  an object. A number is represented by an integer (\<open>-0\<close> as 0); \<open>JNaN\<close> is the number
  \<open>NaN\<close>. \<open>truthy\<close> is the conversion to boolean that \<open>if (v)\<close>, \<open>!v\<close> and \<open>v || w\<close>
  apply.
\<close>

datatype jsval = JUndefined | JNull | JBool bool | JNum int | JNaN | JStr string | JObj nat

fun truthy :: "jsval \<Rightarrow> bool" where
  "truthy JUndefined = False"
| "truthy JNull = False"
| "truthy (JBool b) = b"
| "truthy (JNum n) = (n \<noteq> 0)"
| "truthy JNaN = False"
| "truthy (JStr s) = (s \<noteq> [])"
| "truthy (JObj r) = True"

datatype js_error = TypeError | Error string | HostError

definition to_upper_char :: "char \<Rightarrow> char" where
  \<comment> \<open>\<open>toUpperCase\<close> on the ASCII letters (it is applied to the names of metadata fields)\<close>
  "to_upper_char c =
     (let n = (of_char c :: nat)
      in if 97 \<le> n \<and> n \<le> 122 then char_of (n - 32) else c)"

definition toUpperCase :: "string \<Rightarrow> string" where
  "toUpperCase s = map to_upper_char s"

function show_nat :: "nat \<Rightarrow> string" where
  "show_nat n = (if n < 10 then [char_of (48 + n)] else show_nat (n div 10) @ [char_of (48 + n mod 10)])"
  by pat_completeness auto
termination
  by (relation "measure (\<lambda>n. n)") auto

declare show_nat.simps [simp del]

fun js_ToString :: "jsval \<Rightarrow> string" where
  \<comment> \<open>the conversion to string of template literals and of \<open>+\<close> with a string; an object
      is taken to be a plain one\<close>
  "js_ToString JUndefined = ''undefined''"
| "js_ToString JNull = ''null''"
| "js_ToString (JBool b) = (if b then ''true'' else ''false'')"
| "js_ToString (JNum n) = (if n < 0 then ''-'' @ show_nat (nat (- n)) else show_nat (nat n))"
| "js_ToString JNaN = ''NaN''"
| "js_ToString (JStr s) = s"
| "js_ToString (JObj r) = ''[object Object]''"

section \<open>Changelog engine: version comparison (\<open>vcIsNewer\<close>)\<close>

text \<open>
  \<open>Number(s)\<close> on the pieces of a version string. \<open>js_Number\<close> is \<open>Number\<close> on the pieces
  of a version made of digits and dots: a piece of decimal digits denotes its value and
  the empty piece denotes 0. Numbers are exact naturals, as the IEEE doubles of
  JavaScript are for the integers below \<open>2 ^ 53\<close>. On any other piece
  \<open>js_Number\<close> is \<open>NaN\<close>, as \<open>Number\<close> is on a piece that is no numeric literal; \<open>Number\<close>
  also reads a sign, an exponent, the prefixes \<open>0x\<close>, \<open>0o\<close> and \<open>0b\<close>, \<open>Infinity\<close> and
  surrounding white space, and rounds from \<open>2 ^ 53\<close> on, none of which \<open>js_Number\<close> follows:
  the properties below are stated for \<open>dotted_integer\<close> version strings, where the two
  agree.
\<close>

datatype jsnum = NaN | Num nat

definition digits_value :: "string \<Rightarrow> nat" where
  "digits_value s = foldl (\<lambda>acc c. 10 * acc + ((of_char c :: nat) - 48)) 0 s"

definition js_Number :: "string \<Rightarrow> jsnum" where
  "js_Number s = (if list_all is_digit s then Num (digits_value s) else NaN)"

fun or_zero :: "jsnum option \<Rightarrow> nat" where
  \<comment> \<open>\<open>(a[i] || 0)\<close>: \<open>undefined\<close>, \<open>NaN\<close> and 0 are falsy\<close>
  "or_zero None = 0"
| "or_zero (Some NaN) = 0"
| "or_zero (Some (Num n)) = n"

function vcIsNewer_loop :: "jsnum list \<Rightarrow> jsnum list \<Rightarrow> nat \<Rightarrow> bool" where
  "vcIsNewer_loop a b i =
     (if i < max (length a) (length b) then
        (if or_zero (at_index a i) > or_zero (at_index b i) then True
         else if or_zero (at_index a i) < or_zero (at_index b i) then False
         else vcIsNewer_loop a b (Suc i))
      else False)"
  by pat_completeness auto
termination
  by (relation "measure (\<lambda>(a, b, i). max (length a) (length b) - i)") auto

declare vcIsNewer_loop.simps [simp del]

definition vcIsNewer :: "string \<Rightarrow> string \<Rightarrow> bool" where
  "vcIsNewer v1 v2 =
     vcIsNewer_loop (map js_Number (split_on CHR ''.'' v1))
                    (map js_Number (split_on CHR ''.'' v2)) 0"

text \<open>
  The comparison in the words of the specification: the tuple of a version is the list of
  the values of its dot-separated components; the shorter tuple is padded with zeros and
  the tuples are compared left to right.
\<close>

definition verchar :: "char \<Rightarrow> bool" where
  \<comment> \<open>the class \<open>[\d.]\<close>\<close>
  "verchar c = (is_digit c \<or> c = CHR ''.'')"

definition small_components :: "string \<Rightarrow> bool" where
  \<comment> \<open>every component is below \<open>2 ^ 53\<close>, so that \<open>Number\<close> is exact on it\<close>
  "small_components v = list_all (\<lambda>p. digits_value p < 2 ^ 53) (split_on CHR ''.'' v)"

definition dotted_integer :: "string \<Rightarrow> bool" where
  \<comment> \<open>digits and dots only, every component below \<open>2 ^ 53\<close>\<close>
  "dotted_integer v = (list_all verchar v \<and> small_components v)"

definition version_tuple :: "string \<Rightarrow> nat list" where
  "version_tuple v = map digits_value (split_on CHR ''.'' v)"

definition pad_zero :: "nat \<Rightarrow> nat list \<Rightarrow> nat list" where
  "pad_zero n xs = xs @ replicate (n - length xs) 0"

definition tuple_greater :: "nat list \<Rightarrow> nat list \<Rightarrow> bool" where
  "tuple_greater a b =
     (let n = max (length a) (length b)
      in (pad_zero n b, pad_zero n a) \<in> lexord {(x, y). x < y})"

section \<open>Changelog engine: the parser (\<open>vcParseChangelog\<close>)\<close>

record version_block =
  version :: string
  items :: "string list"

definition match_heading :: "string \<Rightarrow> string option" where
  \<comment> \<open>\<open>line.match(/^###\s+([\d.]+)/)?.[1]\<close>: the captured version, if the line matches\<close>
  "match_heading line =
     (if startsWith line ''###'' then
        (let rest = drop 3 line;
             ver = takeWhile verchar (dropWhile is_space rest)
         in if takeWhile is_space rest \<noteq> [] \<and> ver \<noteq> [] then Some ver else None)
      else None)"

fun truthy_string :: "string option \<Rightarrow> bool" where
  \<comment> \<open>truthiness of a \<open>string | null\<close>\<close>
  "truthy_string None = False"
| "truthy_string (Some s) = (s \<noteq> [])"

definition push_block :: "version_block list \<Rightarrow> string option \<Rightarrow> string list \<Rightarrow> version_block list" where
  \<comment> \<open>\<open>if (curVer) versions.push({ version: curVer, items })\<close>\<close>
  "push_block versions curVer its =
     (case curVer of
        Some v \<Rightarrow> (if v \<noteq> [] then versions @ [\<lparr>version = v, items = its\<rparr>] else versions)
      | None \<Rightarrow> versions)"

fun parse_lines ::
  "string list \<Rightarrow> version_block list \<Rightarrow> string option \<Rightarrow> string list \<Rightarrow> version_block list" where
  "parse_lines [] versions curVer its = push_block versions curVer its"
| "parse_lines (line # rest) versions curVer its =
     (let m = match_heading line
      in if truthy_string m then parse_lines rest (push_block versions curVer its) m []
         else if truthy_string curVer \<and> startsWith (trim line) ''-'' then
           (let item = trim (drop 1 (trim line))
            in parse_lines rest versions curVer (if item \<noteq> [] then its @ [item] else its))
         else parse_lines rest versions curVer its)"

definition parse_versions :: "string \<Rightarrow> version_block list" where
  "parse_versions md = parse_lines (split_on (CHR 0x0A) md) [] None []"

record grouped =
  added :: "string list"
  improved :: "string list"
  fixed :: "string list"
  other :: "string list"

definition tagged :: "string \<Rightarrow> string \<Rightarrow> string" where
  \<comment> \<open>the template \<open>`${it} (v${v.version})`\<close>\<close>
  "tagged it ver = it @ '' (v'' @ ver @ '')''"

definition push_item :: "string \<Rightarrow> grouped \<Rightarrow> string \<Rightarrow> grouped" where
  "push_item ver g it =
     (let lower = toLowerCase it; t = tagged it ver
      in if str_includes lower ''fix'' then g\<lparr>fixed := fixed g @ [t]\<rparr>
         else if str_includes lower ''add'' \<or> str_includes lower ''initial'' then g\<lparr>added := added g @ [t]\<rparr>
         else if str_includes lower ''improv'' \<or> str_includes lower ''updat'' then g\<lparr>improved := improved g @ [t]\<rparr>
         else g\<lparr>other := other g @ [t]\<rparr>)"

definition group_relevant :: "version_block list \<Rightarrow> grouped" where
  "group_relevant relevant =
     foldl (\<lambda>g v. foldl (push_item (version v)) g (items v))
       \<lparr>added = [], improved = [], fixed = [], other = []\<rparr> relevant"

record changelog_entry =
  title :: string
  entry_type :: string
  entry_items :: "string list"

definition vcParseChangelog :: "string \<Rightarrow> string \<Rightarrow> string \<Rightarrow> changelog_entry list" where
  "vcParseChangelog md fromVersion toVersion =
     (let versions = parse_versions md;
          relevant = filter (\<lambda>v. vcIsNewer (version v) fromVersion \<and> \<not> vcIsNewer (version v) toVersion) versions;
          g = group_relevant relevant
      in (if added g \<noteq> [] then [\<lparr>title = ''New Features'', entry_type = ''added'', entry_items = added g\<rparr>] else [])
       @ (if improved g \<noteq> [] then [\<lparr>title = ''Improvements'', entry_type = ''improved'', entry_items = improved g\<rparr>] else [])
       @ (if fixed g \<noteq> [] then [\<lparr>title = ''Fixes'', entry_type = ''fixed'', entry_items = fixed g\<rparr>] else [])
       @ (if other g \<noteq> [] then [\<lparr>title = ''Other Changes'', entry_type = ''progress'', entry_items = other g\<rparr>] else []))"

text \<open>
  The same result in the words of the specification: a block is relevant iff its version
  is strictly newer than \<open>fromVersion\<close> and not newer than \<open>toVersion\<close>; every bullet of a relevant block
  is tagged with the block's version and falls into one bucket, by priority; the output
  lists the non-empty buckets in a fixed order.
\<close>

datatype category = Added | Improved | Fixed | Other

definition category_of :: "string \<Rightarrow> category" where
  "category_of it =
     (let lower = toLowerCase it
      in if str_includes lower ''fix'' then Fixed
         else if str_includes lower ''add'' \<or> str_includes lower ''initial'' then Added
         else if str_includes lower ''improv'' \<or> str_includes lower ''updat'' then Improved
         else Other)"

definition relevant_block :: "string \<Rightarrow> string \<Rightarrow> version_block \<Rightarrow> bool" where
  "relevant_block fromVersion toVersion v =
     (tuple_greater (version_tuple (version v)) (version_tuple fromVersion) \<and>
      \<not> tuple_greater (version_tuple (version v)) (version_tuple toVersion))"

definition bucket :: "string \<Rightarrow> string \<Rightarrow> version_block list \<Rightarrow> category \<Rightarrow> string list" where
  "bucket fromVersion toVersion blocks c =
     concat (map (\<lambda>v. map (\<lambda>it. tagged it (version v)) (filter (\<lambda>it. category_of it = c) (items v)))
                 (filter (relevant_block fromVersion toVersion) blocks))"

fun entry_for :: "category \<Rightarrow> string list \<Rightarrow> changelog_entry" where
  "entry_for Added its = \<lparr>title = ''New Features'', entry_type = ''added'', entry_items = its\<rparr>"
| "entry_for Improved its = \<lparr>title = ''Improvements'', entry_type = ''improved'', entry_items = its\<rparr>"
| "entry_for Fixed its = \<lparr>title = ''Fixes'', entry_type = ''fixed'', entry_items = its\<rparr>"
| "entry_for Other its = \<lparr>title = ''Other Changes'', entry_type = ''progress'', entry_items = its\<rparr>"

definition changelog_spec :: "string \<Rightarrow> string \<Rightarrow> version_block list \<Rightarrow> changelog_entry list" where
  "changelog_spec fromVersion toVersion blocks =
     map (\<lambda>c. entry_for c (bucket fromVersion toVersion blocks c))
         (filter (\<lambda>c. bucket fromVersion toVersion blocks c \<noteq> []) [Added, Improved, Fixed, Other])"

definition grouped_field :: "category \<Rightarrow> grouped \<Rightarrow> string list" where
  \<comment> \<open>the list of \<open>grouped\<close> that holds a category\<close>
  "grouped_field c g =
     (case c of Added \<Rightarrow> added g | Improved \<Rightarrow> improved g | Fixed \<Rightarrow> fixed g | Other \<Rightarrow> other g)"

section \<open>Module lookup: \<open>waitForModule\<close>\<close>

text \<open>
  One call of \<open>waitForModule\<close> is a small state machine: the promise executor runs at the
  call, and afterwards the signal may fire \<open>abort\<close> and the host may deliver the module
  to the callback given to \<open>Vencord.Webpack.waitFor\<close>. The state records the closure
  variable \<open>aborted\<close>, whether \<open>onAbort\<close> is attached to the signal, whether the callback
  is subscribed, every value \<open>resolve\<close> was called with, and the promise. The host's
  contract is part of the model: an \<open>abort\<close> listener added with \<open>once: true\<close> runs at most
  once, and \<open>waitFor\<close> delivers to a callback once.
\<close>

datatype found_value = FoundModule bool nat
  \<comment> \<open>a module the host delivers: whether it is a bare function, and its identity\<close>

datatype export_value = AsFound found_value | ZWrapper found_value
  \<comment> \<open>the module itself, or the wrapper with the properties \<open>Z\<close>, \<open>ZP\<close> and \<open>default\<close>\<close>

datatype resolution =
    ResUndefined | ResExisting jsval | ResExport export_value | ResRaw export_value

datatype promise_state = Pending | Fulfilled resolution | Rejected js_error

record wait_options =
  defaultExport :: bool
  raw :: bool

record abort_signal =
  signal_aborted :: bool

record wait_state =
  aborted :: bool
  listener_attached :: bool
  subscribed :: bool
  resolve_calls :: "resolution list"
  promise :: promise_state

definition resolve :: "resolution \<Rightarrow> wait_state \<Rightarrow> wait_state" where
  \<comment> \<open>a call of the promise's \<open>resolve\<close>: only a pending promise changes\<close>
  "resolve v st =
     st\<lparr>resolve_calls := resolve_calls st @ [v],
        promise := (if promise st = Pending then Fulfilled v else promise st)\<rparr>"

definition onAbort :: "wait_state \<Rightarrow> wait_state" where
  "onAbort st = resolve ResUndefined (st\<lparr>aborted := True, listener_attached := False\<rparr>)"

definition already_aborted :: "abort_signal option \<Rightarrow> bool" where
  \<comment> \<open>\<open>signal\<close> is given and \<open>signal.aborted\<close> holds\<close>
  "already_aborted signal = (case signal of Some s \<Rightarrow> signal_aborted s | None \<Rightarrow> False)"

definition waitForModule ::
  "wait_options \<Rightarrow> abort_signal option \<Rightarrow> js_error + jsval \<Rightarrow> wait_state" where
  \<comment> \<open>the executor; \<open>existing\<close> is the outcome of \<open>this.getModule(filter, options)\<close>\<close>
  "waitForModule options signal existing =
     (let st0 = \<lparr>aborted = False, listener_attached = False, subscribed = False,
                 resolve_calls = [], promise = Pending\<rparr>
      in if already_aborted signal then onAbort st0
         else
             (let st1 = st0\<lparr>listener_attached := (signal \<noteq> None)\<rparr>
              in case existing of
                   Inl e \<Rightarrow> st1\<lparr>promise := Rejected e\<rparr>
                 | Inr existingModule \<Rightarrow>
                     (if truthy existingModule
                      then resolve (ResExisting existingModule) (st1\<lparr>listener_attached := False\<rparr>)
                      else st1\<lparr>subscribed := True\<rparr>)))"

definition delivered :: "wait_options \<Rightarrow> found_value \<Rightarrow> resolution" where
  \<comment> \<open>what the callback resolves with\<close>
  "delivered options foundModule =
     (let result = (case foundModule of
                      FoundModule is_function ident \<Rightarrow>
                        (if \<not> defaultExport options \<and> is_function then ZWrapper foundModule
                         else AsFound foundModule))
      in if raw options then ResRaw result else ResExport result)"

datatype wait_event = Abort | Discover found_value

definition wait_step :: "wait_options \<Rightarrow> wait_event \<Rightarrow> wait_state \<Rightarrow> js_error + wait_state" where
  "wait_step options ev st =
     (case ev of
        Abort \<Rightarrow> Inr (if listener_attached st then onAbort st else st)
      | Discover foundModule \<Rightarrow>
          (if subscribed st then
             (let st1 = st\<lparr>subscribed := False, listener_attached := False\<rparr>
              in if aborted st1 then Inr st1
                 else Inr (resolve (delivered options foundModule) st1))
           else Inr st))"

fun wait_run :: "wait_options \<Rightarrow> wait_event list \<Rightarrow> wait_state \<Rightarrow> js_error + wait_state" where
  "wait_run options [] st = Inr st"
| "wait_run options (ev # evs) st =
     (case wait_step options ev st of
        Inl e \<Rightarrow> Inl e
      | Inr st1 \<Rightarrow> wait_run options evs st1)"

definition wait_inv :: "wait_state \<Rightarrow> bool" where
  \<comment> \<open>what holds of every state of a call\<close>
  "wait_inv st =
     ((resolve_calls st = [] \<and> \<not> aborted st
         \<and> (promise st = Pending \<or> ((\<exists>e. promise st = Rejected e) \<and> \<not> subscribed st)))
      \<or> (resolve_calls st = [ResUndefined] \<and> aborted st \<and> \<not> listener_attached st
         \<and> promise st \<noteq> Pending)
      \<or> (\<exists>v. resolve_calls st = [v] \<and> \<not> aborted st \<and> \<not> listener_attached st
               \<and> \<not> subscribed st \<and> promise st = Fulfilled v))"

definition triggers :: "wait_event \<Rightarrow> wait_state \<Rightarrow> bool" where
  \<comment> \<open>the event reaches the code: its listener or callback is registered\<close>
  "triggers ev st = (case ev of Abort \<Rightarrow> listener_attached st | Discover m \<Rightarrow> subscribed st)"

section \<open>Plugin assembler (\<open>convertPlugin\<close>)\<close>

text \<open>
  The plugin's source text enters \<open>convertPlugin\<close> through three opaque operations: the
  metadata parser (\<open>parseLegacyMeta\<close> or \<open>parseNewMeta\<close>), the evaluation of the wrapped
  source (\<open>wrapBetterDiscordPluginCode\<close>) and the call of the exported constructor or
  factory. A \<open>plugin_source\<close> gives the outcome of each, and of the methods of the instance
  that \<open>convertPlugin\<close> calls: \<open>None\<close> for a method the instance does not have, \<open>Inl\<close> for
  a call that throws. The metadata is the list of the own properties of \<open>pluginMeta\<close>.

  The record \<open>final\<close> is the map of its data fields. The queue \<open>queuedPlugins\<close> holds
  proxies of such records; an entry is represented by the \<open>filename\<close> its record holds,
  which is what \<open>findIndex\<close> compares. The trace lists, in order, the steps that touch the
  queue or run the source. The synthetic options entries and the bound \<open>start\<close> and \<open>stop\<close>
  functions are not part of the model.
\<close>

record plugin_instance =
  load_method :: "(js_error + unit) option"
  getName :: "(js_error + jsval) option"
  getVersion :: "(js_error + jsval) option"
  getDescription :: "(js_error + jsval) option"

record plugin_source =
  parsedMeta :: "js_error + (string \<times> jsval) list"
  evaluated :: "js_error option"
  instantiated :: "js_error + plugin_instance"

type_synonym record_fields = "string \<rightharpoonup> jsval"

definition field :: "record_fields \<Rightarrow> string \<Rightarrow> jsval" where
  \<comment> \<open>\<open>final[prop]\<close>\<close>
  "field final prop = (case final prop of Some v \<Rightarrow> v | None \<Rightarrow> JUndefined)"

record notice =
  notice_title :: string
  notice_content :: string
  notice_buttons :: "(string \<times> bool) list"
  close_icon :: bool
  auto_close_after :: "nat option"

definition showNotice :: "string \<Rightarrow> nat \<Rightarrow> (string \<times> bool) list \<Rightarrow> notice" where
  \<comment> \<open>\<open>UIHolder.showNotice\<close>: a button is a label and whether clicking it closes the notice;
      the notice closes by itself only when \<open>timeout > 0\<close>. The close icon \<open>xButton\<close> is
      built but never appended to the notice, so the notice has none\<close>
  "showNotice content timeout buttons =
     \<lparr>notice_title = ''Notice'', notice_content = content,
      notice_buttons = (''Close'', True) # buttons, close_icon = False,
      auto_close_after = (if timeout > 0 then Some timeout else None)\<rparr>"

datatype assembler_event =
    ParseMeta string
  | QueuePush jsval
  | EvalSource string
  | Instantiate
  | QueueSplice nat

record assembler_state =
  queuedPlugins :: "jsval list"
  notices :: "notice list"
  error_log :: "string list"
  trace :: "assembler_event list"

record assembler_host =
  occupied :: "jsval \<Rightarrow> bool"
  innerHTML :: "string \<Rightarrow> string"

text \<open>
  \<open>occupied name\<close> is the test
  \<open>Vencord.Plugins.plugins[name] && !Vencord.Plugins.plugins[name]["instance"]\<close>;
  \<open>innerHTML html\<close> is what the element's \<open>innerHTML\<close> reads after \<open>html\<close> was assigned to it.
\<close>

definition initial_final :: "string \<Rightarrow> string \<Rightarrow> record_fields" where
  "initial_final filename sourcePath =
     [''started'' \<mapsto> JBool False, ''sourcePath'' \<mapsto> JStr sourcePath, ''filename'' \<mapsto> JStr filename,
      ''authors'' \<mapsto> JObj 0, ''name'' \<mapsto> JStr [], ''format'' \<mapsto> JStr ''jsdoc'',
      ''internals'' \<mapsto> JObj 1, ''description'' \<mapsto> JStr [], ''id'' \<mapsto> JStr [],
      ''options'' \<mapsto> JObj 2]"

definition object_assign :: "record_fields \<Rightarrow> (string \<times> jsval) list \<Rightarrow> record_fields" where
  \<comment> \<open>\<open>Object.assign(final, pluginMeta)\<close>\<close>
  "object_assign final pluginMeta = foldl (\<lambda>f (k, v). f(k \<mapsto> v)) final pluginMeta"

definition apply_getter ::
  "(js_error + jsval) option \<Rightarrow> (jsval \<Rightarrow> jsval) \<Rightarrow> string \<Rightarrow> record_fields \<Rightarrow> js_error + record_fields" where
  \<comment> \<open>\<open>if (final.instance.getX) final.x = post(final.instance.getX())\<close>\<close>
  "apply_getter getter post prop final =
     (case getter of
        None \<Rightarrow> Inr final
      | Some (Inl e) \<Rightarrow> Inl e
      | Some (Inr v) \<Rightarrow> Inr (final(prop \<mapsto> post v)))"

definition or_sentinel :: "jsval \<Rightarrow> jsval" where
  \<comment> \<open>\<open>v || "6.6.6"\<close>\<close>
  "or_sentinel v = (if truthy v then v else JStr ''6.6.6'')"

definition legacy_getters :: "plugin_instance \<Rightarrow> record_fields \<Rightarrow> js_error + record_fields" where
  "legacy_getters inst final =
     (case apply_getter (getName inst) (\<lambda>v. v) ''name'' final of
        Inl e \<Rightarrow> Inl e
      | Inr f1 \<Rightarrow>
          (case apply_getter (getVersion inst) or_sentinel ''version'' f1 of
             Inl e \<Rightarrow> Inl e
           | Inr f2 \<Rightarrow> apply_getter (getDescription inst) (\<lambda>v. v) ''description'' f2))"

definition dedupe_name :: "assembler_host \<Rightarrow> bool \<Rightarrow> record_fields \<Rightarrow> record_fields" where
  \<comment> \<open>\<open>final.originalName = final.name\<close>, then the suffix when the name is taken\<close>
  "dedupe_name h detectDuplicateName final =
     (let f1 = final(''originalName'' \<mapsto> field final ''name'')
      in if detectDuplicateName \<and> occupied h (field f1 ''name'')
         then f1(''name'' \<mapsto> JStr (js_ToString (field f1 ''name'') @ ''-BD''))
         else f1)"

definition neededMeta :: "string list" where
  "neededMeta = [''name'', ''version'', ''description'']"

definition whatsMissing :: "record_fields \<Rightarrow> string list" where
  "whatsMissing final = filter (\<lambda>prop. \<not> truthy (field final prop)) neededMeta"

definition incomplete_html :: "record_fields \<Rightarrow> string list \<Rightarrow> string" where
  \<comment> \<open>the template literal assigned to \<open>newTextElement.innerHTML\<close>\<close>
  "incomplete_html final missing =
     ''The BD Plugin ''
     @ js_ToString (if truthy (field final ''name'') then field final ''name'' else field final ''id'')
     @ '' is missing the following metadata below<br><br>\<newline>        <strong>''
     @ toUpperCase (join '', '' missing)
     @ ''</strong><br><br>\<newline>        The plugin could not be started, Please fix.''"

fun findIndex :: "('a \<Rightarrow> bool) \<Rightarrow> 'a list \<Rightarrow> nat option" where
  "findIndex P [] = None"
| "findIndex P (x # xs) = (if P x then Some 0 else map_option Suc (findIndex P xs))"

definition strict_equal :: "jsval \<Rightarrow> jsval \<Rightarrow> bool" where
  \<comment> \<open>\<open>a === b\<close>\<close>
  "strict_equal a b = (a = b \<and> a \<noteq> JNaN)"

definition splice_first :: "jsval \<Rightarrow> jsval list \<Rightarrow> jsval list" where
  \<comment> \<open>\<open>findIndex(x => x.filename === filename)\<close> and \<open>splice(index, 1)\<close> when an index is found\<close>
  "splice_first filename queue =
     (case findIndex (\<lambda>x. strict_equal x filename) queue of
        None \<Rightarrow> queue
      | Some i \<Rightarrow> take i queue @ drop (Suc i) queue)"

definition log_event :: "assembler_event \<Rightarrow> assembler_state \<Rightarrow> assembler_state" where
  "log_event ev st = st\<lparr>trace := trace st @ [ev]\<rparr>"

definition parse_and_queue ::
  "plugin_source \<Rightarrow> string \<Rightarrow> string \<Rightarrow> assembler_state \<Rightarrow> (js_error + record_fields) \<times> assembler_state" where
  \<comment> \<open>from the start of \<open>convertPlugin\<close> to the push onto \<open>queuedPlugins\<close>\<close>
  "parse_and_queue src filename sourcePath st =
     (let final = initial_final filename sourcePath;
          st1 = log_event (ParseMeta filename) st
      in case parsedMeta src of
           Inl e \<Rightarrow>
             (Inl e, st1\<lparr>error_log := error_log st1 @
                 [''Something snapped during parsing of meta for file: '' @ filename]\<rparr>)
         | Inr pluginMeta \<Rightarrow>
             (let f1 = object_assign final pluginMeta;
                  st2 = log_event (QueuePush (field f1 ''filename''))
                          (st1\<lparr>queuedPlugins := queuedPlugins st1 @ [field f1 ''filename'']\<rparr>)
              in (Inr f1, st2)))"

definition instantiate ::
  "plugin_source \<Rightarrow> string \<Rightarrow> assembler_state \<Rightarrow> (js_error + plugin_instance) \<times> assembler_state" where
  \<comment> \<open>the evaluation of the wrapped source, the instantiation and \<open>load\<close>\<close>
  "instantiate src filename st =
     (let st1 = log_event (EvalSource filename) st
      in case evaluated src of
           Some e \<Rightarrow> (Inl e, st1)
         | None \<Rightarrow>
             (let st2 = log_event Instantiate st1
              in case instantiated src of
                   Inl e \<Rightarrow>
                     (Inl e, st2\<lparr>error_log := error_log st2 @
                         [''Something snapped during instatiation of exports for file: '' @ filename]\<rparr>)
                 | Inr inst \<Rightarrow>
                     (case load_method inst of
                        Some (Inl e) \<Rightarrow> (Inl e, st2)
                      | _ \<Rightarrow> (Inr inst, st2))))"

definition validate ::
  "assembler_host \<Rightarrow> record_fields \<Rightarrow> assembler_state \<Rightarrow> (js_error + unit) \<times> assembler_state" where
  \<comment> \<open>the check of \<open>neededMeta\<close>, the notice and the throw\<close>
  "validate h final st =
     (let whatsMissingDavil = whatsMissing final
      in if length whatsMissingDavil > 0 then
           (let html = incomplete_html final whatsMissingDavil
            in (Inl (Error (''Incomplete plugin, '' @ innerHTML h html)),
                st\<lparr>notices := notices st @ [showNotice html 0 [(''Didn't ask ;-)'', False)]]\<rparr>))
         else (Inr (), st))"

definition remove_from_queue :: "record_fields \<Rightarrow> assembler_state \<Rightarrow> assembler_state" where
  \<comment> \<open>the end of \<open>convertPlugin\<close>\<close>
  "remove_from_queue final st =
     (case findIndex (\<lambda>x. strict_equal x (field final ''filename'')) (queuedPlugins st) of
        None \<Rightarrow> st
      | Some i \<Rightarrow>
          log_event (QueueSplice i)
            (st\<lparr>queuedPlugins := splice_first (field final ''filename'') (queuedPlugins st)\<rparr>))"

record assembled =
  assembled_fields :: record_fields
  assembled_instance :: plugin_instance

definition convertPlugin ::
  "assembler_host \<Rightarrow> plugin_source \<Rightarrow> string \<Rightarrow> bool \<Rightarrow> string \<Rightarrow> assembler_state
     \<Rightarrow> (js_error + assembled) \<times> assembler_state" where
  "convertPlugin h src filename detectDuplicateName sourcePath st =
     (case parse_and_queue src filename sourcePath st of
        (Inl e, st1) \<Rightarrow> (Inl e, st1)
      | (Inr f1, st1) \<Rightarrow>
          (case instantiate src filename st1 of
             (Inl e, st2) \<Rightarrow> (Inl e, st2)
           | (Inr inst, st2) \<Rightarrow>
               (case legacy_getters inst f1 of
                  Inl e \<Rightarrow> (Inl e, st2)
                | Inr f2 \<Rightarrow>
                    (let f3 = dedupe_name h detectDuplicateName f2
                     in case validate h f3 st2 of
                          (Inl e, st3) \<Rightarrow> (Inl e, st3)
                        | (Inr u, st3) \<Rightarrow>
                            (Inr \<lparr>assembled_fields = f3, assembled_instance = inst\<rparr>, remove_from_queue f3 st3)))))"

definition overridden_record ::
  "plugin_source \<Rightarrow> string \<Rightarrow> string \<Rightarrow> js_error + record_fields" where
  \<comment> \<open>the record after metadata parsing and the legacy getters, when the source gets that far\<close>
  "overridden_record src filename sourcePath =
     (case parsedMeta src of
        Inl e \<Rightarrow> Inl e
      | Inr pluginMeta \<Rightarrow>
          (case evaluated src of
             Some e \<Rightarrow> Inl e
           | None \<Rightarrow>
               (case instantiated src of
                  Inl e \<Rightarrow> Inl e
                | Inr inst \<Rightarrow>
                    (case load_method inst of
                       Some (Inl e) \<Rightarrow> Inl e
                     | _ \<Rightarrow>
                         legacy_getters inst
                           (object_assign (initial_final filename sourcePath) pluginMeta)))))"

fun queue_after :: "assembler_event list \<Rightarrow> jsval list \<Rightarrow> jsval list" where
  \<comment> \<open>the queue after the steps of a trace\<close>
  "queue_after [] queue = queue"
| "queue_after (QueuePush entry # evs) queue = queue_after evs (queue @ [entry])"
| "queue_after (QueueSplice i # evs) queue = queue_after evs (take i queue @ drop (Suc i) queue)"
| "queue_after (ev # evs) queue = queue_after evs queue"

definition persistent :: "notice \<Rightarrow> bool" where
  "persistent n = (auto_close_after n = None)"

definition dismissible :: "notice \<Rightarrow> bool" where
  "dismissible n = (close_icon n \<or> (\<exists>b \<in> set (notice_buttons n). snd b))"

section \<open>Runtime shims: \<open>require\<close> (\<open>FakeRequireRedirect\<close>)\<close>

text \<open>
  \<open>window.require\<close> is \<open>FakeRequireRedirect\<close>, which reads the property \<open>name\<close> of the object
  literal \<open>ReImplementationObject\<close>. The literal has the data properties \<open>fs\<close>, \<open>path\<close>,
  \<open>https\<close>, \<open>events\<close>, \<open>electron\<close>, \<open>crypto\<close>, \<open>process\<close> and the getters \<open>request_\<close> and
  \<open>request\<close>; the latter yields the request shim only when the setting
  \<open>enableExperimentalRequestPolyfills\<close> is \<open>true\<close>. A property the literal does not have is
  looked up in \<open>Object.prototype\<close>, and is \<open>undefined\<close> when it is not there either.
\<close>

datatype shim =
    ShimFs | ShimPath | ShimHttps | ShimRequest | ShimEvents | ShimElectron | ShimCrypto | ShimProcess

datatype required = Module shim | PrototypeMember string | RequireUndefined

definition own_property :: "bool \<Rightarrow> string \<Rightarrow> required option" where
  "own_property enableExperimentalRequestPolyfills name =
     (if name = ''fs'' then Some (Module ShimFs)
      else if name = ''path'' then Some (Module ShimPath)
      else if name = ''https'' then Some (Module ShimHttps)
      else if name = ''request_'' then Some (Module ShimRequest)
      else if name = ''request'' then
        Some (if enableExperimentalRequestPolyfills then Module ShimRequest else RequireUndefined)
      else if name = ''events'' then Some (Module ShimEvents)
      else if name = ''electron'' then Some (Module ShimElectron)
      else if name = ''crypto'' then Some (Module ShimCrypto)
      else if name = ''process'' then Some (Module ShimProcess)
      else None)"

definition object_prototype_names :: "string list" where
  "object_prototype_names =
     [''constructor'', ''hasOwnProperty'', ''isPrototypeOf'', ''propertyIsEnumerable'',
      ''toLocaleString'', ''toString'', ''valueOf'', ''__proto__'',
      ''__defineGetter__'', ''__defineSetter__'', ''__lookupGetter__'', ''__lookupSetter__'']"

definition FakeRequireRedirect :: "bool \<Rightarrow> string \<Rightarrow> js_error + required" where
  \<comment> \<open>\<open>return ReImplementationObject[name]\<close>: no branch throws\<close>
  "FakeRequireRedirect enableExperimentalRequestPolyfills name =
     Inr (case own_property enableExperimentalRequestPolyfills name of
            Some r \<Rightarrow> r
          | None \<Rightarrow> (if name \<in> set object_prototype_names then PrototypeMember name
                     else RequireUndefined))"

definition allow_list :: "string list" where
  \<comment> \<open>the module names the specification lists, with the request shim\<close>
  "allow_list = [''fs'', ''path'', ''events'', ''electron'', ''crypto'', ''process'', ''https'', ''request'']"

section \<open>Module lookup: \<open>getMangled\<close>\<close>

text \<open>
  A plain object is the list of its own enumerable properties in insertion order.
  \<open>assign\<close> is the assignment \<open>obj[k] = v\<close> on an object literal: it updates or appends the
  own property \<open>k\<close>, except for the name \<open>__proto__\<close>, which is the accessor of
  \<open>Object.prototype\<close> and creates no own property. \<open>hasOwn\<close> is
  \<open>Object.prototype.hasOwnProperty.call(obj, k)\<close>. \<open>Object.keys\<close> lists the array indices
  first, in ascending order, and then the other names in insertion order: \<open>own_entries\<close>
  is the list of the properties in that order.

  The module that \<open>getModule\<close> found is given by the properties that \<open>for (key in module)\<close>
  enumerates, in that order. \<open>GetterOnly g\<close> is an own accessor with a getter and no
  setter, \<open>g\<close> being what the getter returns (\<open>None\<close> when it throws). \<open>Plain r\<close> is any
  other property, read by \<open>module[key]\<close>: \<open>r\<close> is the value (\<open>None\<close> when the read throws,
  which only an accessor can do). A validator of the mapping returns a truthy or falsy
  value, or throws (\<open>None\<close>).
\<close>

type_synonym js_object = "(string \<times> jsval) list"

definition assign :: "js_object \<Rightarrow> string \<Rightarrow> jsval \<Rightarrow> js_object" where
  "assign obj k v = (if k = ''__proto__'' then obj else AList.update k v obj)"

definition hasOwn :: "js_object \<Rightarrow> string \<Rightarrow> bool" where
  "hasOwn obj k = (map_of obj k \<noteq> None)"

definition is_array_index :: "string \<Rightarrow> bool" where
  \<comment> \<open>the canonical decimal form of an integer from 0 to \<open>2^32 - 2\<close>\<close>
  "is_array_index k =
     (k \<noteq> [] \<and> list_all is_digit k \<and> (k = ''0'' \<or> hd k \<noteq> CHR ''0'')
      \<and> digits_value k < 4294967295)"

definition own_entries :: "(string \<times> 'a) list \<Rightarrow> (string \<times> 'a) list" where
  \<comment> \<open>the properties in the order of \<open>Object.keys\<close>\<close>
  "own_entries obj =
     sort_key (\<lambda>e. digits_value (fst e)) (filter (\<lambda>e. is_array_index (fst e)) obj)
     @ filter (\<lambda>e. \<not> is_array_index (fst e)) obj"

datatype property = GetterOnly "jsval option" | Plain "jsval option"

type_synonym found_module = "(string \<times> property) list"

type_synonym mappers = "(string \<times> (jsval \<Rightarrow> bool option)) list"

fun flatten :: "found_module \<Rightarrow> js_object \<Rightarrow> js_error + js_object" where
  \<comment> \<open>the loop that fills \<open>writableModule\<close>\<close>
  "flatten [] writableModule = Inr writableModule"
| "flatten ((key, GetterOnly g) # rest) writableModule =
     flatten rest (assign writableModule key (case g of Some v \<Rightarrow> v | None \<Rightarrow> JUndefined))"
| "flatten ((key, Plain r) # rest) writableModule =
     (case r of
        None \<Rightarrow> Inl HostError
      | Some v \<Rightarrow> flatten rest (assign writableModule key v))"

fun match_value :: "mappers \<Rightarrow> jsval \<Rightarrow> js_object \<Rightarrow> js_object" where
  \<comment> \<open>the inner loop, over the validators in the order given, for the value of one
      module property\<close>
  "match_value [] v mapped = mapped"
| "match_value ((key, validator) # rest) v mapped =
     (if hasOwn mapped key then match_value rest v mapped
      else if validator v = Some True then match_value rest v (assign mapped key v)
      else match_value rest v mapped)"

fun match_module :: "mappers \<Rightarrow> js_object \<Rightarrow> js_object \<Rightarrow> js_object" where
  \<comment> \<open>the outer loop, over the properties of \<open>writableModule\<close> in the order given\<close>
  "match_module ms [] mapped = mapped"
| "match_module ms ((searchKey, v) # rest) mapped = match_module ms rest (match_value ms v mapped)"

fun ensure_keys :: "mappers \<Rightarrow> js_object \<Rightarrow> js_object" where
  \<comment> \<open>"Ensure ALL mapper keys exist (even if undefined)"\<close>
  "ensure_keys [] mapped = mapped"
| "ensure_keys ((key, validator) # rest) mapped =
     ensure_keys rest (if hasOwn mapped key then mapped else assign mapped key JUndefined)"

record mangled =
  own_properties :: js_object
  getMangled_symbol :: "js_object option"

definition getMangled :: "found_module option \<Rightarrow> mappers \<Rightarrow> js_error + mangled" where
  \<comment> \<open>the first argument is what \<open>getModule(filter, options)\<close> found (its \<open>exports\<close> when
      \<open>raw\<close>), \<open>None\<close> when it found nothing; \<open>moduleKeys\<close> and \<open>mapperKeys\<close> are
      \<open>Object.keys\<close> of the writable module and of the mapping\<close>
  "getMangled found ms =
     (case found of
        None \<Rightarrow> Inr \<lparr>own_properties = [], getMangled_symbol = None\<rparr>
      | Some module \<Rightarrow>
          (case flatten module [] of
             Inl e \<Rightarrow> Inl e
           | Inr writableModule \<Rightarrow>
               Inr \<lparr>own_properties =
                      ensure_keys (own_entries ms)
                        (match_module (own_entries ms) (own_entries writableModule) []),
                    getMangled_symbol = Some writableModule\<rparr>))"

definition accepted_by :: "(jsval \<Rightarrow> bool option) \<Rightarrow> js_object \<Rightarrow> jsval \<Rightarrow> bool" where
  \<comment> \<open>\<open>v\<close> is the value of a property of the writable module that the validator accepts\<close>
  "accepted_by validator writableModule v =
     (v \<in> snd ` set writableModule \<and> validator v = Some True)"

definition sound :: "mappers \<Rightarrow> js_object \<Rightarrow> js_object \<Rightarrow> bool" where
  \<comment> \<open>every property of \<open>mapped\<close> holds a value its validator accepted\<close>
  "sound ms w mapped =
     (\<forall>k v. map_of mapped k = Some v \<longrightarrow>
        (\<exists>validator. (k, validator) \<in> set ms \<and> accepted_by validator w v))"

fun flattened_value :: "property \<Rightarrow> jsval" where
  \<comment> \<open>the value \<open>writableModule\<close> holds for a property\<close>
  "flattened_value (GetterOnly g) = (case g of Some v \<Rightarrow> v | None \<Rightarrow> JUndefined)"
| "flattened_value (Plain r) = (case r of Some v \<Rightarrow> v | None \<Rightarrow> JUndefined)"

definition accept_all :: "jsval \<Rightarrow> bool option" where
  \<comment> \<open>a validator that accepts every value\<close>
  "accept_all v = Some True"

definition is_string :: "jsval \<Rightarrow> bool option" where
  \<comment> \<open>the validator \<open>v => typeof v === "string"\<close>\<close>
  "is_string v = (case v of JStr s \<Rightarrow> Some True | _ \<Rightarrow> Some False)"

section \<open>Scoped API instances (\<open>BdApiReImplementationInstance\<close>)\<close>

text \<open>
  Object identity is what the singleton property is about, so objects live in a heap and
  are named by references. \<open>GlobalClass\<close> is \<open>window.BdApi\<close>, the class object whose static
  getters forward to the one global instance; \<open>PatcherObj\<close>, \<open>DataHolderObj\<close> and
  \<open>DOMHolderObj\<close> are the global facades; \<open>ProtoMember n\<close> is the member \<open>n\<close> that a plain
  object inherits from \<open>Object.prototype\<close>.
\<close>

datatype jsref =
    Addr nat | GlobalClass | PatcherObj | DataHolderObj | DOMHolderObj
  | ProtoMember string | RefUndefined

datatype cell =
    ApiInstance jsref jsref jsref
  | PatcherWrapper string
  | DataWrapper string
  | DOMWrapper string

record bdapi_state =
  next_addr :: nat
  heap :: "nat \<rightharpoonup> cell"
  global_installed :: bool
  labelsOfInstancedAPI :: "string \<rightharpoonup> jsref"

text \<open>
  \<open>global_installed\<close> says that \<open>window.BdApi\<close> is set; \<open>labelsOfInstancedAPI\<close> is the object
  of that name of the global instance, the one \<open>getGlobalApi().labelsOfInstancedAPI\<close> reads.
\<close>

definition alloc :: "cell \<Rightarrow> bdapi_state \<Rightarrow> nat \<times> bdapi_state" where
  "alloc c st =
     (next_addr st, st\<lparr>next_addr := Suc (next_addr st), heap := (heap st)(next_addr st \<mapsto> c)\<rparr>)"

definition labels_lookup :: "bdapi_state \<Rightarrow> string \<Rightarrow> jsref" where
  \<comment> \<open>\<open>getGlobalApi().labelsOfInstancedAPI[label]\<close>\<close>
  "labels_lookup st l =
     (case labelsOfInstancedAPI st l of
        Some r \<Rightarrow> r
      | None \<Rightarrow> (if l \<in> set object_prototype_names then ProtoMember l else RefUndefined))"

definition new_BdApi :: "string option \<Rightarrow> bdapi_state \<Rightarrow> js_error + (jsref \<times> bdapi_state)" where
  \<comment> \<open>\<open>new BdApiReImplementationInstance(label)\<close>: the object the expression yields\<close>
  "new_BdApi label st =
     (let (this, st1) = alloc (ApiInstance RefUndefined RefUndefined RefUndefined) st
      in if truthy_string label then
           (if \<not> global_installed st1 then Inl TypeError
            else
              (let l = the label
               in if labels_lookup st1 l \<noteq> RefUndefined then Inr (labels_lookup st1 l, st1)
                  else
                    (let (p, st2) = alloc (PatcherWrapper l) st1;
                         (d, st3) = alloc (DataWrapper l) st2;
                         (m, st4) = alloc (DOMWrapper l) st3
                     in Inr (Addr this,
                             st4\<lparr>heap := (heap st4)(this \<mapsto> ApiInstance (Addr p) (Addr d) (Addr m)),
                                 labelsOfInstancedAPI := (labelsOfInstancedAPI st4)(l \<mapsto> Addr this)\<rparr>))))
         else
           (let st2 = st1\<lparr>heap := (heap st1)(this \<mapsto> ApiInstance PatcherObj DataHolderObj DOMHolderObj)\<rparr>
            in Inr (if global_installed st2 then GlobalClass else Addr this, st2)))"

definition createGlobalBdApi :: "bdapi_state \<Rightarrow> bdapi_state" where
  \<comment> \<open>\<open>assignToGlobal\<close> builds the global instance, whose \<open>labelsOfInstancedAPI\<close> is \<open>{}\<close>; the
      caller stores the class in \<open>window.BdApi\<close>\<close>
  "createGlobalBdApi st =
     (case new_BdApi None (st\<lparr>global_installed := False\<rparr>) of
        Inr (r, st1) \<Rightarrow> st1\<lparr>labelsOfInstancedAPI := Map.empty, global_installed := True\<rparr>
      | Inl e \<Rightarrow> st)"

definition instance_field :: "(jsref \<times> jsref \<times> jsref \<Rightarrow> jsref) \<Rightarrow> jsref \<Rightarrow> bdapi_state \<Rightarrow> jsref \<Rightarrow> jsref" where
  \<comment> \<open>a getter that returns a private field; on the class it forwards to the global instance\<close>
  "instance_field sel global st r =
     (case r of
        Addr a \<Rightarrow> (case heap st a of Some (ApiInstance p d m) \<Rightarrow> sel (p, d, m) | _ \<Rightarrow> RefUndefined)
      | GlobalClass \<Rightarrow> global
      | _ \<Rightarrow> RefUndefined)"

definition Patcher :: "bdapi_state \<Rightarrow> jsref \<Rightarrow> jsref" where
  "Patcher = instance_field (\<lambda>(p, d, m). p) PatcherObj"

definition Data :: "bdapi_state \<Rightarrow> jsref \<Rightarrow> jsref" where
  "Data = instance_field (\<lambda>(p, d, m). d) DataHolderObj"

definition DOM :: "bdapi_state \<Rightarrow> jsref \<Rightarrow> jsref" where
  "DOM = instance_field (\<lambda>(p, d, m). m) DOMHolderObj"

definition after_new :: "bdapi_state \<Rightarrow> string option \<Rightarrow> bdapi_state" where
  \<comment> \<open>the state a construction leaves (unchanged if it throws)\<close>
  "after_new st label = (case new_BdApi label st of Inr (r, st1) \<Rightarrow> st1 | Inl e \<Rightarrow> st)"

definition constructions :: "string option list \<Rightarrow> bdapi_state \<Rightarrow> bdapi_state" where
  \<comment> \<open>any number of constructions, one after the other\<close>
  "constructions labels st = foldl after_new st labels"

text \<open>What stays fixed from one state to a later one, and the well-formedness of a state.\<close>

definition extends :: "bdapi_state \<Rightarrow> bdapi_state \<Rightarrow> bool" where
  "extends s t =
     (next_addr s \<le> next_addr t \<and> global_installed t = global_installed s \<and>
      (\<forall>a < next_addr s. heap t a = heap s a) \<and>
      (\<forall>l. labels_lookup s l \<noteq> RefUndefined \<longrightarrow> labels_lookup t l = labels_lookup s l))"

definition wf_state :: "bdapi_state \<Rightarrow> bool" where
  "wf_state s =
     (global_installed s \<and>
      (\<forall>l r. labelsOfInstancedAPI s l = Some r \<longrightarrow> (\<exists>a. r = Addr a \<and> a < next_addr s)))"

section \<open>Scoped data: \<open>DataHolder\<close>\<close>

text \<open>
  \<open>DataHolder\<close> keeps one object per label in \<open>pluginData\<close> and mirrors it in the file
  \<open>/BD/plugins/<label>.config.json\<close>. The state is the cache, the files and the list of
  file-system calls made so far, so that "does not touch the file system" can be stated.
  \<open>pluginData\<close> is a plain object: reading \<open>this.pluginData[key]\<close> finds an own property
  or else a member inherited from \<open>Object.prototype\<close> (\<open>toString\<close>, \<open>constructor\<close>,
  \<open>__proto__\<close>, ...), so the state has both, and \<open>cached\<close> is the read. An assignment
  \<open>this.pluginData[key] = v\<close> makes an own property; the assignment
  \<open>this.pluginData[key][value] = data\<close> changes the object that was read, and when that
  object is \<open>Object.prototype\<close> itself (the label \<open>__proto__\<close>), \<open>data\<close> becomes an inherited
  member. What the host provides is a parameter: \<open>JSON.parse\<close> (\<open>None\<close> when it throws),
  \<open>JSON.stringify\<close>, the empty object, reading and writing a property of a value
  (\<open>None\<close> when the access throws, as it does on \<open>null\<close>), the conversion of a value to a
  property key, and a JavaScript value seen as a value of the cache.
\<close>

datatype fs_call = ExistsSync string | ReadFileSync string | WriteFileSync string string

record 'o host =
  json_parse :: "string \<Rightarrow> 'o option"
  json_stringify :: "'o \<Rightarrow> string"
  empty_object :: 'o
  get_property :: "'o \<Rightarrow> string \<Rightarrow> jsval option"
  set_property :: "'o \<Rightarrow> string \<Rightarrow> jsval \<Rightarrow> 'o option"
  property_key :: "jsval \<Rightarrow> string"
  of_value :: "jsval \<Rightarrow> 'o"

record 'o data_state =
  pluginData :: "string \<rightharpoonup> 'o"
  inherited :: "string \<rightharpoonup> 'o"
  files :: "string \<rightharpoonup> string"
  fs_calls :: "fs_call list"
  debug_log :: "string list"

definition plugins_folder :: string where
  \<comment> \<open>\<open>PluginsHolder.folder\<close>: \<open>rootFolder + "/plugins"\<close> with \<open>rootFolder = "/BD"\<close>\<close>
  "plugins_folder = ''/BD'' @ ''/plugins''"

definition config_path :: "string \<Rightarrow> string" where
  "config_path key = plugins_folder @ ''/'' @ key @ ''.config.json''"

definition cached :: "'o data_state \<Rightarrow> string \<Rightarrow> 'o option" where
  \<comment> \<open>\<open>this.pluginData[key]\<close>, \<open>None\<close> when it is \<open>undefined\<close>\<close>
  "cached st key = (case pluginData st key of Some own \<Rightarrow> Some own | None \<Rightarrow> inherited st key)"

definition latestDataCheck :: "'o host \<Rightarrow> string \<Rightarrow> 'o data_state \<Rightarrow> 'o data_state" where
  "latestDataCheck h key st =
     (case cached st key of
        Some found \<Rightarrow> st
      | None \<Rightarrow>
          (let p = config_path key;
               st1 = st\<lparr>fs_calls := fs_calls st @ [ExistsSync p]\<rparr>
           in case files st p of
                None \<Rightarrow> st1\<lparr>pluginData := (pluginData st1)(key \<mapsto> empty_object h)\<rparr>
              | Some text \<Rightarrow>
                  (let st2 = st1\<lparr>fs_calls := fs_calls st1 @ [ReadFileSync p]\<rparr>
                   in case json_parse h text of
                        Some parsed \<Rightarrow> st2\<lparr>pluginData := (pluginData st2)(key \<mapsto> parsed)\<rparr>
                      | None \<Rightarrow>
                          st2\<lparr>pluginData := (pluginData st2)(key \<mapsto> empty_object h),
                              debug_log := debug_log st2 @ [''Reset corrupted config: '' @ key]\<rparr>)))"

definition load :: "'o host \<Rightarrow> jsval \<Rightarrow> jsval \<Rightarrow> 'o data_state \<Rightarrow> js_error + (jsval \<times> 'o data_state)" where
  \<comment> \<open>\<open>load(key, value)\<close>: the first parameter is the label, the second the key read\<close>
  "load h key val st =
     (if \<not> truthy val \<or> \<not> truthy key then Inr (JUndefined, st)
      else
        (let k = property_key h key;
             st1 = latestDataCheck h k st
         in case cached st1 k of
              None \<Rightarrow> Inl TypeError
            | Some found \<Rightarrow>
                (case get_property h found (property_key h val) of
                   None \<Rightarrow> Inl TypeError
                 | Some v \<Rightarrow> Inr (v, st1))))"

definition write_through :: "'o host \<Rightarrow> string \<Rightarrow> jsval \<Rightarrow> jsval \<Rightarrow> 'o \<Rightarrow> 'o data_state \<Rightarrow> 'o data_state" where
  \<comment> \<open>the state after \<open>this.pluginData[k][val] = data\<close> has turned the object read into
      \<open>updated\<close>\<close>
  "write_through h k val data updated st =
     (case pluginData st k of
        Some own \<Rightarrow> st\<lparr>pluginData := (pluginData st)(k \<mapsto> updated)\<rparr>
      | None \<Rightarrow>
          (if k = ''__proto__''
           then st\<lparr>inherited := (inherited st)(k \<mapsto> updated, property_key h val \<mapsto> of_value h data)\<rparr>
           else st\<lparr>inherited := (inherited st)(k \<mapsto> updated)\<rparr>))"

definition save :: "'o host \<Rightarrow> jsval \<Rightarrow> jsval \<Rightarrow> jsval \<Rightarrow> 'o data_state \<Rightarrow> js_error + 'o data_state" where
  \<comment> \<open>\<open>save(key, value, data)\<close>: label, key written, data\<close>
  "save h key val data st =
     (if \<not> truthy val \<or> \<not> truthy key \<or> \<not> truthy data then Inr st
      else
        (let k = property_key h key;
             st1 = latestDataCheck h k st
         in case cached st1 k of
              None \<Rightarrow> Inl TypeError
            | Some found \<Rightarrow>
                (case set_property h found (property_key h val) data of
                   None \<Rightarrow> Inl TypeError
                 | Some updated \<Rightarrow>
                     (let p = config_path k; text = json_stringify h updated;
                          st2 = write_through h k val data updated st1
                      in Inr (st2\<lparr>files := (files st2)(p \<mapsto> text),
                                  fs_calls := fs_calls st2 @ [WriteFileSync p text]\<rparr>)))))"
section \<open>Plugin registry control (\<open>PluginsHolder.enable\<close>)\<close>

text \<open>
  Plugin objects are shared between the host registry \<open>Vencord.Plugins.plugins\<close>, the list
  \<open>GeneratedPlugins\<close> and the queue, and are mutated in place, so they live in a heap.
  A \<open>bd_plugin\<close> holds the fields that \<open>enable\<close> and its helpers read or write; an absent
  filename or version is the empty string, \<open>p_instance\<close> says whether the object has an
  \<open>instance\<close> (an assembled plugin has one, a plugin of the host has none), and
  \<open>start_throws\<close> and \<open>stop_throws\<close> say what the instance's \<open>start\<close> and \<open>stop\<close> do. A file on disk has its \<open>mtimeMs\<close> and the
  outcome of \<open>convertPlugin\<close> on its content: it throws while the metadata is parsed,
  before anything is queued; or it throws later (evaluation, instantiation, missing
  metadata), and the record it had pushed onto \<open>queuedPlugins\<close> stays there as it was
  when the error was thrown; or it returns the assembled plugin, whose name gets the
  suffix \<open>-BD\<close> when the registry holds a plugin of the host under that name. The list
  \<open>effects\<close> records the calls made, in order.

  The host's part is modelled by its contract. \<open>Vencord.Settings.plugins[name]\<close> exists
  for every name. \<open>startPlugin\<close> and \<open>stopPlugin\<close> throw on \<open>undefined\<close>; on a plugin they
  call its \<open>start\<close> (or \<open>stop\<close>) unless it is already started (stopped), and set \<open>started\<close>
  unless that call throws. The \<open>start\<close> and \<open>stop\<close> of an assembled plugin are the
  wrappers bound at the end of \<open>convertPlugin\<close>, which first write \<open>pluginsStatus\<close>.
  The settings objects hold booleans under the names of plugins, and no plugin is named
  like a member of \<open>Object.prototype\<close>.
\<close>

datatype file_sig = NoSig | Sig int

record bd_plugin =
  p_name :: string
  p_originalName :: string
  p_id :: string
  p_filename :: string
  p_version :: string
  p_started :: bool
  p_instance :: bool
  bdFileSig :: file_sig
  start_throws :: bool
  stop_throws :: bool

datatype conversion =
    ThrowsBeforeQueue js_error
  | ThrowsAfterQueue js_error bd_plugin
  | Assembles bd_plugin

record disk_file =
  mtimeMs :: int
  assembles_to :: conversion

datatype effect =
    SetEnabled string bool
  | SetStatus string bool
  | StartPlugin "nat option"
  | StopPlugin "nat option"
  | UnpatchAll string
  | RemoveStyle string
  | Deregister string
  | ReadFile string
  | ConvertPlugin string
  | Register string
  | StampSig string
  | QueueChangelog string string string
  | Warn string

record layer_state =
  objects :: "nat \<rightharpoonup> bd_plugin"
  next_object :: nat
  plugins :: "string \<rightharpoonup> nat"
  GeneratedPlugins :: "nat list"
  queued :: "nat list"
  enabled :: "string \<rightharpoonup> bool"
  pluginsStatus :: "string \<rightharpoonup> bool"
  fs_present :: bool
  disk :: "string \<rightharpoonup> disk_file"
  effects :: "effect list"

definition log_effect :: "effect \<Rightarrow> layer_state \<Rightarrow> layer_state" where
  "log_effect e st = st\<lparr>effects := effects st @ [e]\<rparr>"

definition matches_any :: "string \<Rightarrow> bd_plugin \<Rightarrow> bool" where
  "matches_any idOrFile p =
     (p_name p = idOrFile \<or> p_originalName p = idOrFile \<or> p_id p = idOrFile \<or> p_filename p = idOrFile)"

definition resolvePluginByAny :: "layer_state \<Rightarrow> string \<Rightarrow> (nat \<times> bd_plugin) option" where
  "resolvePluginByAny st idOrFile =
     find (\<lambda>(r, p). matches_any idOrFile p)
       (List.map_filter (\<lambda>r. map_option (\<lambda>p. (r, p)) (objects st r))
          (GeneratedPlugins st @ queued st))"

definition to_int32 :: "int \<Rightarrow> int" where
  \<comment> \<open>\<open>x | 0\<close> on an integral number\<close>
  "to_int32 x = (x + 2147483648) mod 4294967296 - 2147483648"

definition full_path :: "string \<Rightarrow> string" where
  "full_path filename = plugins_folder @ ''/'' @ filename"

definition getFileSig :: "layer_state \<Rightarrow> bd_plugin \<Rightarrow> file_sig" where
  "getFileSig st p =
     (if \<not> fs_present st \<or> p_filename p = [] then NoSig
      else (case disk st (full_path (p_filename p)) of
              None \<Rightarrow> NoSig
            | Some f \<Rightarrow> Sig (to_int32 (mtimeMs f))))"

definition stampFileSigOnCurrent :: "string \<Rightarrow> layer_state \<Rightarrow> layer_state" where
  "stampFileSigOnCurrent name st =
     (case plugins st name of
        None \<Rightarrow> st
      | Some r \<Rightarrow>
          (case objects st r of
             None \<Rightarrow> st
           | Some inst \<Rightarrow>
               (if p_filename inst = [] then st
                else log_effect (StampSig name)
                       (st\<lparr>objects := (objects st)(r \<mapsto> inst\<lparr>bdFileSig := getFileSig st inst\<rparr>)\<rparr>))))"

definition isPluginEnabled :: "layer_state \<Rightarrow> string \<Rightarrow> bool" where
  "isPluginEnabled st name = (enabled st name = Some True)"

definition startPlugin :: "nat option \<Rightarrow> layer_state \<Rightarrow> js_error + layer_state" where
  "startPlugin target st =
     (let st0 = log_effect (StartPlugin target) st
      in case target of
           None \<Rightarrow> Inl TypeError
         | Some r \<Rightarrow>
             (case objects st0 r of
                None \<Rightarrow> Inl TypeError
              | Some p \<Rightarrow>
                  (if p_started p then Inr st0
                   else
                     (let st1 = st0\<lparr>pluginsStatus := (pluginsStatus st0)(p_name p \<mapsto> True)\<rparr>
                      in if start_throws p then Inr st1
                         else Inr (st1\<lparr>objects := (objects st1)(r \<mapsto> p\<lparr>p_started := True\<rparr>)\<rparr>)))))"

definition stopPlugin :: "nat option \<Rightarrow> layer_state \<Rightarrow> js_error + layer_state" where
  "stopPlugin target st =
     (let st0 = log_effect (StopPlugin target) st
      in case target of
           None \<Rightarrow> Inl TypeError
         | Some r \<Rightarrow>
             (case objects st0 r of
                None \<Rightarrow> Inl TypeError
              | Some p \<Rightarrow>
                  (if \<not> p_started p then Inr st0
                   else
                     (let st1 = st0\<lparr>pluginsStatus := (pluginsStatus st0)(p_name p \<mapsto> False)\<rparr>
                      in if stop_throws p then Inr st1
                         else Inr (st1\<lparr>objects := (objects st1)(r \<mapsto> p\<lparr>p_started := False\<rparr>)\<rparr>)))))"

definition safeStopPlugin :: "string \<Rightarrow> layer_state \<Rightarrow> layer_state" where
  \<comment> \<open>each of the three calls is wrapped in \<open>try { } catch { }\<close>; what a throwing call did
      before it threw is the record of the call\<close>
  "safeStopPlugin name st =
     (let st1 = (case stopPlugin (plugins st name) st of
                   Inr s \<Rightarrow> s
                 | Inl e \<Rightarrow> log_effect (StopPlugin (plugins st name)) st)
      in log_effect (RemoveStyle name) (log_effect (UnpatchAll name) st1))"

fun remove_first :: "('a \<Rightarrow> bool) \<Rightarrow> 'a list \<Rightarrow> 'a list" where
  \<comment> \<open>\<open>index = xs.findIndex(P); if (index !== -1) xs.splice(index, 1)\<close>\<close>
  "remove_first P [] = []"
| "remove_first P (x # xs) = (if P x then xs else x # remove_first P xs)"

definition push_queued :: "bd_plugin \<Rightarrow> layer_state \<Rightarrow> layer_state" where
  \<comment> \<open>\<open>queuedPlugins.push(final.myProxy)\<close>, \<open>final\<close> being a new object; the proxy reads
      through to \<open>final\<close>, so the queue holds the address of \<open>final\<close>\<close>
  "push_queued final st =
     st\<lparr>objects := (objects st)(next_object st \<mapsto> final), next_object := Suc (next_object st),
        queued := queued st @ [next_object st]\<rparr>"

definition convert_file :: "disk_file \<Rightarrow> layer_state \<Rightarrow> (js_error + nat) \<times> layer_state" where
  \<comment> \<open>what \<open>convertPlugin(code, filename, true, folder)\<close> does to the registry, given its
      outcome on this code: the record is queued as soon as the metadata is parsed; on
      success the name is made unique (\<open>detectDuplicateName\<close>), the first queued entry with
      the filename of the assembled plugin is removed and its address is returned\<close>
  "convert_file f st =
     (case assembles_to f of
        ThrowsBeforeQueue e \<Rightarrow> (Inl e, st)
      | ThrowsAfterQueue e final \<Rightarrow> (Inl e, push_queued final st)
      | Assembles final \<Rightarrow>
          (let name_taken = (case plugins st (p_name final) of
                             None \<Rightarrow> False
                           | Some x \<Rightarrow> (case objects st x of
                                         None \<Rightarrow> False
                                       | Some holder \<Rightarrow> \<not> p_instance holder));
               named = (if name_taken then final\<lparr>p_name := p_name final @ ''-BD''\<rparr> else final);
               st1 = push_queued named st
           in (Inr (next_object st),
               st1\<lparr>queued :=
                     remove_first (\<lambda>x. map_option p_filename (objects st1 x) = Some (p_filename named))
                       (queued st1)\<rparr>)))"

definition addCustomPlugin :: "nat \<Rightarrow> layer_state \<Rightarrow> js_error option \<times> layer_state" where
  \<comment> \<open>the argument is the address of the assembled plugin; the result is the error thrown,
      if any, and the state reached\<close>
  "addCustomPlugin r st =
     (case objects st r of
        None \<Rightarrow> (Some TypeError, st)
      | Some generated \<Rightarrow>
          (let name = p_name generated;
               stamped = (if \<not> fs_present st then generated\<lparr>bdFileSig := Sig 0\<rparr>
                          else (case disk st (full_path (p_filename generated)) of
                                  None \<Rightarrow> generated
                                | Some f \<Rightarrow> generated\<lparr>bdFileSig := Sig (to_int32 (mtimeMs f))\<rparr>));
               st1 = log_effect (SetEnabled name False) (log_effect (Register name)
                       (st\<lparr>objects := (objects st)(r \<mapsto> stamped),
                           plugins := (plugins st)(name \<mapsto> r),
                           enabled := (enabled st)(name \<mapsto> False)\<rparr>))
           in case pluginsStatus st1 name of
                None \<Rightarrow> (None, st1\<lparr>GeneratedPlugins := GeneratedPlugins st1 @ [r]\<rparr>)
              | Some status \<Rightarrow>
                  (let st2 = log_effect (SetEnabled name status)
                               (st1\<lparr>enabled := (enabled st1)(name \<mapsto> status)\<rparr>)
                   in if status then
                        (case startPlugin (plugins st2 name) st2 of
                           Inl e \<Rightarrow> (Some e, log_effect (StartPlugin (plugins st2 name)) st2)
                         | Inr st3 \<Rightarrow> (None, st3\<lparr>GeneratedPlugins := GeneratedPlugins st3 @ [r]\<rparr>))
                      else (None, st2\<lparr>GeneratedPlugins := GeneratedPlugins st2 @ [r]\<rparr>))))"

definition softReloadBDPlugin :: "bd_plugin \<Rightarrow> layer_state \<Rightarrow> js_error option \<times> layer_state" where
  \<comment> \<open>the error thrown, if any, and the state reached\<close>
  "softReloadBDPlugin p st =
     (if \<not> fs_present st \<or> p_filename p = [] then (Some (Error ''no-fs-or-filename''), st)
      else
        (let name = p_name p;
             wasEnabled = isPluginEnabled st name;
             st1 = log_effect (SetStatus name wasEnabled)
                     (st\<lparr>pluginsStatus := (pluginsStatus st)(name \<mapsto> wasEnabled)\<rparr>);
             st2 = safeStopPlugin name st1;
             st3 = log_effect (Deregister name)
                     (st2\<lparr>GeneratedPlugins :=
                            (case plugins st2 name of
                               None \<Rightarrow> GeneratedPlugins st2
                             | Some inst \<Rightarrow> remove1 inst (GeneratedPlugins st2)),
                          plugins := (plugins st2)(name := None)\<rparr>);
             st4 = log_effect (ReadFile (full_path (p_filename p))) st3
         in case disk st4 (full_path (p_filename p)) of
              None \<Rightarrow> (Some HostError, st4)
            | Some f \<Rightarrow>
                (case convert_file f (log_effect (ConvertPlugin (p_filename p)) st4) of
                   (Inl e, st5) \<Rightarrow> (Some e, st5)
                 | (Inr assembled, st5) \<Rightarrow>
                     (let newVer = (case objects st5 assembled of
                                      None \<Rightarrow> [] | Some a \<Rightarrow> p_version a)
                      in case addCustomPlugin assembled st5 of
                           (Some e, st6) \<Rightarrow> (Some e, st6)
                         | (None, st6) \<Rightarrow>
                             (let st7 = stampFileSigOnCurrent name st6
                              in (None,
                                  if p_version p \<noteq> [] \<and> newVer \<noteq> [] \<and> p_version p \<noteq> newVer
                                  then log_effect (QueueChangelog name (p_version p) newVer) st7
                                  else st7))))))"

definition falsy_sig :: "file_sig \<Rightarrow> bool" where
  \<comment> \<open>\<open>!hadSig\<close>: \<open>undefined\<close> and 0 are falsy\<close>
  "falsy_sig s = (s = NoSig \<or> s = Sig 0)"

definition reload_wanted :: "layer_state \<Rightarrow> bd_plugin \<Rightarrow> bool" where
  \<comment> \<open>the condition of the \<open>if\<close> in \<open>enable\<close>, in the state after the intent was recorded\<close>
  "reload_wanted st p =
     (let current = (case plugins st (p_name p) of None \<Rightarrow> None | Some r \<Rightarrow> objects st r);
          hadSig = (case current of None \<Rightarrow> NoSig | Some c \<Rightarrow> bdFileSig c);
          nowSig = getFileSig st (case current of None \<Rightarrow> p | Some c \<Rightarrow> c)
      in ((case current of None \<Rightarrow> False | Some c \<Rightarrow> p_filename c \<noteq> [])
            \<and> nowSig \<noteq> NoSig \<and> hadSig \<noteq> nowSig)
         \<or> (falsy_sig hadSig \<and> nowSig \<noteq> NoSig))"

definition record_intent :: "string \<Rightarrow> layer_state \<Rightarrow> layer_state" where
  \<comment> \<open>"Mark enabled *first* so addCustomPlugin auto-starts after soft reload"\<close>
  "record_intent name st =
     log_effect (SetStatus name True)
       ((log_effect (SetEnabled name True) (st\<lparr>enabled := (enabled st)(name \<mapsto> True)\<rparr>))
          \<lparr>pluginsStatus := (pluginsStatus st)(name \<mapsto> True)\<rparr>)"

definition start_existing :: "string \<Rightarrow> layer_state \<Rightarrow> layer_state" where
  \<comment> \<open>the final \<open>try { startPlugin(...); stampFileSigOnCurrent(...) } catch { }\<close>\<close>
  "start_existing name st =
     (case startPlugin (plugins st name) st of
        Inl e \<Rightarrow> log_effect (StartPlugin (plugins st name)) st
      | Inr st1 \<Rightarrow> stampFileSigOnCurrent name st1)"

definition enable :: "string \<Rightarrow> layer_state \<Rightarrow> layer_state" where
  "enable idOrFile st =
     (case resolvePluginByAny st idOrFile of
        None \<Rightarrow> st
      | Some (r, p) \<Rightarrow>
          (let st1 = record_intent (p_name p) st
           in if reload_wanted st1 p then
                (case softReloadBDPlugin p st1 of
                   (None, st2) \<Rightarrow> st2
                 | (Some e, st2) \<Rightarrow>
                     start_existing (p_name p)
                       (log_effect (Warn ''[BdCompat] enable(): soft reload failed, starting old instance'') st2))
              else start_existing (p_name p) st1))"

text \<open>The reload decision in the words of the specification.\<close>

definition current_instance :: "layer_state \<Rightarrow> bd_plugin \<Rightarrow> bd_plugin option" where
  \<comment> \<open>\<open>Vencord.Plugins.plugins[p.name]\<close>\<close>
  "current_instance st p = (case plugins st (p_name p) of None \<Rightarrow> None | Some r \<Rightarrow> objects st r)"

definition stamped_sig :: "layer_state \<Rightarrow> bd_plugin \<Rightarrow> file_sig" where
  \<comment> \<open>the signature stamped on the registered instance, \<open>NoSig\<close> if there is none\<close>
  "stamped_sig st p = (case current_instance st p of None \<Rightarrow> NoSig | Some c \<Rightarrow> bdFileSig c)"

definition disk_sig :: "layer_state \<Rightarrow> bd_plugin \<Rightarrow> file_sig" where
  \<comment> \<open>the signature of the file on disk, \<open>NoSig\<close> if it cannot be read\<close>
  "disk_sig st p = getFileSig st (case current_instance st p of None \<Rightarrow> p | Some c \<Rightarrow> c)"

definition signature_stale :: "layer_state \<Rightarrow> bd_plugin \<Rightarrow> bool" where
  \<comment> \<open>the file's signature can be read and differs from the stamped one, or none was
      stamped (a stamped 0 counts as none)\<close>
  "signature_stale st p =
     (disk_sig st p \<noteq> NoSig \<and> (stamped_sig st p \<noteq> disk_sig st p \<or> stamped_sig st p = Sig 0))"

definition soft_reload_steps :: "layer_state \<Rightarrow> bd_plugin \<Rightarrow> effect list" where
  \<comment> \<open>stop, unpatch, destyle, deregister, re-read from disk\<close>
  "soft_reload_steps st p =
     [SetStatus (p_name p) True, StopPlugin (plugins st (p_name p)), UnpatchAll (p_name p),
      RemoveStyle (p_name p), Deregister (p_name p), ReadFile (full_path (p_filename p))]"

definition soft_reload_warning :: effect where
  "soft_reload_warning = Warn ''[BdCompat] enable(): soft reload failed, starting old instance''"


text \<open>A registry holding one assembled plugin, at address 0, for the examples.\<close>

definition sample_plugin :: "string \<Rightarrow> file_sig \<Rightarrow> bool \<Rightarrow> bd_plugin" where
  "sample_plugin v sig running =
     \<lparr>p_name = ''P'', p_originalName = ''P'', p_id = ''P'', p_filename = ''p.plugin.js'',
      p_version = v, p_started = running, p_instance = True, bdFileSig = sig,
      start_throws = False, stop_throws = False\<rparr>"

definition sample_state :: "bd_plugin \<Rightarrow> (string \<rightharpoonup> disk_file) \<Rightarrow> layer_state" where
  "sample_state registered on_disk =
     \<lparr>objects = [0 \<mapsto> registered], next_object = 1, plugins = [''P'' \<mapsto> 0],
      GeneratedPlugins = [0], queued = [], enabled = Map.empty, pluginsStatus = Map.empty,
      fs_present = True, disk = on_disk, effects = []\<rparr>"

definition assembles :: "layer_state \<Rightarrow> bd_plugin \<Rightarrow> bool" where
  \<comment> \<open>the plugin's file can be read and \<open>convertPlugin\<close> returns on its content\<close>
  "assembles st p =
     (case disk st (full_path (p_filename p)) of
        None \<Rightarrow> False
      | Some f \<Rightarrow> (case assembles_to f of Assembles a \<Rightarrow> True | _ \<Rightarrow> False))"

definition sample_file :: "conversion \<Rightarrow> (string \<rightharpoonup> disk_file)" where
  \<comment> \<open>the plugin's file, modified after the signature 5 was stamped\<close>
  "sample_file outcome =
     [''/BD/plugins/p.plugin.js'' \<mapsto> \<lparr>mtimeMs = 1700000000000, assembles_to = outcome\<rparr>]"
section \<open>Properties of the version comparison\<close>

lemma split_on_nonempty: "split_on sep s \<noteq> []"
  by (induction s) (auto split: list.splits)

lemma split_on_pieces:
  "list_all (\<lambda>p. list_all (\<lambda>c. c \<in> set s \<and> c \<noteq> sep) p) (split_on sep s)"
proof (induction s)
  case Nil
  show ?case by simp
next
  case (Cons c cs)
  have mono: "list_all (\<lambda>p. list_all (\<lambda>x. x \<in> set (c # cs) \<and> x \<noteq> sep) p) (split_on sep cs)"
    using Cons.IH by (auto simp: list_all_iff)
  show ?case
  proof (cases "c = sep")
    case True
    then show ?thesis using mono by simp
  next
    case False
    obtain piece pieces where sp: "split_on sep cs = piece # pieces"
      using split_on_nonempty[of sep cs] by (cases "split_on sep cs") auto
    show ?thesis using False mono sp by simp
  qed
qed

lemma padded_nth:
  "i < n \<Longrightarrow> length a \<le> n \<Longrightarrow>
   pad_zero n (map (\<lambda>x. or_zero (Some x)) a) ! i = or_zero (at_index a i)"
  by (auto simp: pad_zero_def at_index_def nth_append)

lemma loop_lexord:
  assumes "length a \<le> n" "length b \<le> n" "n = max (length a) (length b)"
  shows "vcIsNewer_loop a b i \<longleftrightarrow>
     (drop i (pad_zero n (map (\<lambda>x. or_zero (Some x)) b)),
      drop i (pad_zero n (map (\<lambda>x. or_zero (Some x)) a))) \<in> lexord {(x, y). x < y}"
  using assms
proof (induction a b i rule: vcIsNewer_loop.induct)
  case (1 a b i)
  let ?A = "pad_zero n (map (\<lambda>x. or_zero (Some x)) a)"
  let ?B = "pad_zero n (map (\<lambda>x. or_zero (Some x)) b)"
  have la: "length ?A = n" and lb: "length ?B = n"
    using 1(2,3) by (auto simp: pad_zero_def)
  show ?case
  proof (cases "i < n")
    case False
    have "drop i ?A = []" "drop i ?B = []" using False la lb by simp_all
    moreover have "\<not> vcIsNewer_loop a b i"
      using False 1(4) by (subst vcIsNewer_loop.simps) simp
    ultimately show ?thesis by simp
  next
    case True
    have da: "drop i ?A = or_zero (at_index a i) # drop (Suc i) ?A"
      using True la padded_nth[OF True 1(2)] by (metis Cons_nth_drop_Suc)
    have db: "drop i ?B = or_zero (at_index b i) # drop (Suc i) ?B"
      using True lb padded_nth[OF True 1(3)] by (metis Cons_nth_drop_Suc)
    show ?thesis
      using True 1 da db by (subst vcIsNewer_loop.simps) auto
  qed
qed

lemma number_digits: "list_all is_digit p \<Longrightarrow> or_zero (Some (js_Number p)) = digits_value p"
  by (simp add: js_Number_def)

lemma dotted_pieces:
  assumes "dotted_integer v"
  shows "map (\<lambda>x. or_zero (Some x)) (map js_Number (split_on CHR ''.'' v)) = version_tuple v"
proof -
  have "list_all (\<lambda>p. list_all is_digit p) (split_on CHR ''.'' v)"
    using assms split_on_pieces[of v "CHR ''.''"]
    unfolding dotted_integer_def verchar_def list_all_iff by blast
  then show ?thesis
    unfolding version_tuple_def by (simp add: list_all_iff number_digits)
qed

lemma vcIsNewer_tuple:
  assumes "dotted_integer a" "dotted_integer b"
  shows "vcIsNewer a b \<longleftrightarrow> tuple_greater (version_tuple a) (version_tuple b)"
proof -
  let ?a = "map js_Number (split_on CHR ''.'' a)"
  let ?b = "map js_Number (split_on CHR ''.'' b)"
  let ?n = "max (length ?a) (length ?b)"
  have eqa: "map (\<lambda>x. or_zero (Some x)) ?a = version_tuple a"
    by (rule dotted_pieces[OF assms(1)])
  have eqb: "map (\<lambda>x. or_zero (Some x)) ?b = version_tuple b"
    by (rule dotted_pieces[OF assms(2)])
  have n: "?n = max (length (version_tuple a)) (length (version_tuple b))"
    by (simp add: version_tuple_def)
  have "vcIsNewer a b \<longleftrightarrow>
     (drop 0 (pad_zero ?n (map (\<lambda>x. or_zero (Some x)) ?b)),
      drop 0 (pad_zero ?n (map (\<lambda>x. or_zero (Some x)) ?a))) \<in> lexord {(x, y). x < y}"
    unfolding vcIsNewer_def by (rule loop_lexord) simp_all
  then have "vcIsNewer a b \<longleftrightarrow>
     (pad_zero ?n (version_tuple b), pad_zero ?n (version_tuple a)) \<in> lexord {(x, y). x < y}"
    by (simp only: drop_0 eqa eqb)
  then show ?thesis
    unfolding tuple_greater_def Let_def n .
qed

text \<open>
  Claim C5. For all dotted-integer version strings \<open>a\<close> and \<open>b\<close> (digits and dots, components
  in the range where JavaScript numbers are exact), \<open>vcIsNewer a b\<close> is true iff the tuple
  of \<open>a\<close> is greater than the tuple of \<open>b\<close>, components compared numerically from the left
  and a missing component counted as 0; \<open>vcIsNewer "1.9.0" "1.10.0"\<close> is false and
  \<open>vcIsNewer "1.10.0" "1.9.0"\<close> is true.
\<close>

theorem vcIsNewer_numeric_tuple_order:
  assumes "dotted_integer a" "dotted_integer b"
  shows "(vcIsNewer a b \<longleftrightarrow> tuple_greater (version_tuple a) (version_tuple b))
       \<and> \<not> vcIsNewer ''1.9.0'' ''1.10.0'' \<and> vcIsNewer ''1.10.0'' ''1.9.0''"
proof -
  have "\<not> vcIsNewer ''1.9.0'' ''1.10.0''" by code_simp
  moreover have "vcIsNewer ''1.10.0'' ''1.9.0''" by code_simp
  ultimately show ?thesis using vcIsNewer_tuple[OF assms] by simp
qed

theorem vcIsNewer_numeric_tuple_order_witness:
  "dotted_integer ''2.10'' \<and> dotted_integer ''2.9'' \<and> vcIsNewer ''2.10'' ''2.9''
   \<and> version_tuple ''2.10'' = [2, 10] \<and> version_tuple ''2.9'' = [2, 9]
   \<and> tuple_greater [2, 10] [2, 9]"
proof -
  have a: "dotted_integer ''2.10''"
    by (simp add: dotted_integer_def verchar_def small_components_def is_digit_def digits_value_def)
  have b: "dotted_integer ''2.9''"
    by (simp add: dotted_integer_def verchar_def small_components_def is_digit_def digits_value_def)
  have ta: "version_tuple ''2.10'' = [2, 10]"
    by (simp add: version_tuple_def digits_value_def)
  have tb: "version_tuple ''2.9'' = [2, 9]"
    by (simp add: version_tuple_def digits_value_def)
  have g: "tuple_greater [2, 10] [2, 9]"
    by (simp add: tuple_greater_def pad_zero_def)
  show ?thesis
    using vcIsNewer_numeric_tuple_order[OF a b] a b ta tb g by simp
qed

section \<open>Properties of the changelog parser\<close>

lemma push_item_fields:
  "added (push_item ver g it) = added g @ (if category_of it = Added then [tagged it ver] else [])"
  "improved (push_item ver g it) = improved g @ (if category_of it = Improved then [tagged it ver] else [])"
  "fixed (push_item ver g it) = fixed g @ (if category_of it = Fixed then [tagged it ver] else [])"
  "other (push_item ver g it) = other g @ (if category_of it = Other then [tagged it ver] else [])"
  by (simp_all add: push_item_def category_of_def Let_def)

lemma grouped_field_push_item:
  "grouped_field c (push_item ver g it) =
     grouped_field c g @ (if category_of it = c then [tagged it ver] else [])"
  by (cases c) (simp_all add: grouped_field_def push_item_fields)

lemma grouped_field_items:
  "grouped_field c (foldl (push_item ver) g its) =
     grouped_field c g @ map (\<lambda>it. tagged it ver) (filter (\<lambda>it. category_of it = c) its)"
  by (induction its arbitrary: g) (simp_all add: grouped_field_push_item)

lemma grouped_field_blocks:
  "grouped_field c (foldl (\<lambda>g v. foldl (push_item (version v)) g (items v)) g vs) =
     grouped_field c g @
     concat (map (\<lambda>v. map (\<lambda>it. tagged it (version v)) (filter (\<lambda>it. category_of it = c) (items v))) vs)"
  by (induction vs arbitrary: g) (simp_all add: grouped_field_items)

lemma group_relevant_bucket:
  "grouped_field c (group_relevant (filter (relevant_block fromVersion toVersion) blocks)) =
     bucket fromVersion toVersion blocks c"
  unfolding group_relevant_def bucket_def grouped_field_blocks
  by (cases c) (simp_all add: grouped_field_def)

lemma relevant_filter:
  assumes "dotted_integer fromVersion" "dotted_integer toVersion"
    and "\<forall>v \<in> set blocks. dotted_integer (version v)"
  shows "filter (\<lambda>v. vcIsNewer (version v) fromVersion \<and> \<not> vcIsNewer (version v) toVersion) blocks =
         filter (relevant_block fromVersion toVersion) blocks"
  using assms by (intro filter_cong refl) (simp add: relevant_block_def vcIsNewer_tuple)

lemma parse_is_spec:
  assumes "dotted_integer fromVersion" "dotted_integer toVersion"
    and "\<forall>v \<in> set (parse_versions md). dotted_integer (version v)"
  shows "vcParseChangelog md fromVersion toVersion =
         changelog_spec fromVersion toVersion (parse_versions md)"
proof -
  let ?g = "group_relevant (filter (relevant_block fromVersion toVersion) (parse_versions md))"
  have f: "added ?g = bucket fromVersion toVersion (parse_versions md) Added"
    "improved ?g = bucket fromVersion toVersion (parse_versions md) Improved"
    "fixed ?g = bucket fromVersion toVersion (parse_versions md) Fixed"
    "other ?g = bucket fromVersion toVersion (parse_versions md) Other"
    using group_relevant_bucket[of Added fromVersion toVersion "parse_versions md"]
      group_relevant_bucket[of Improved fromVersion toVersion "parse_versions md"]
      group_relevant_bucket[of Fixed fromVersion toVersion "parse_versions md"]
      group_relevant_bucket[of Other fromVersion toVersion "parse_versions md"]
    by (simp_all add: grouped_field_def)
  show ?thesis
    unfolding vcParseChangelog_def Let_def relevant_filter[OF assms] f changelog_spec_def
    by simp
qed

text \<open>The version of a tagged bullet can be read back from the tag.\<close>

lemma tagged_version:
  assumes "list_all verchar ver"
  shows "rev (takeWhile verchar (drop 1 (rev (tagged it ver)))) = ver"
proof -
  have nv: "\<not> verchar (CHR ''v'')" by (simp add: verchar_def is_digit_def)
  have "rev (tagged it ver) = CHR '')'' # rev ver @ (CHR ''v'' # CHR ''('' # CHR '' '' # rev it)"
    by (simp add: tagged_def)
  moreover have "takeWhile verchar (rev ver @ (CHR ''v'' # CHR ''('' # CHR '' '' # rev it))
      = rev ver @ takeWhile verchar (CHR ''v'' # CHR ''('' # CHR '' '' # rev it)"
    using assms by (intro takeWhile_append2) (simp add: list_all_iff)
  ultimately have "takeWhile verchar (drop 1 (rev (tagged it ver))) = rev ver"
    using nv by simp
  then show ?thesis by simp
qed

lemma tagged_inj_version:
  assumes "list_all verchar v1" "list_all verchar v2" "tagged i1 v1 = tagged i2 v2"
  shows "v1 = v2"
  using tagged_version[OF assms(1), of i1] tagged_version[OF assms(2), of i2] assms(3) by simp

lemma bucket_member:
  "t \<in> set (bucket fromVersion toVersion blocks c) \<longleftrightarrow>
     (\<exists>v \<in> set blocks. relevant_block fromVersion toVersion v \<and>
        (\<exists>it \<in> set (items v). category_of it = c \<and> t = tagged it (version v)))"
  by (auto simp: bucket_def)

lemma spec_member:
  "(\<exists>e \<in> set (changelog_spec fromVersion toVersion blocks). t \<in> set (entry_items e)) \<longleftrightarrow>
   (\<exists>c. t \<in> set (bucket fromVersion toVersion blocks c))"
proof
  assume "\<exists>e \<in> set (changelog_spec fromVersion toVersion blocks). t \<in> set (entry_items e)"
  then obtain c where "t \<in> set (entry_items (entry_for c (bucket fromVersion toVersion blocks c)))"
    unfolding changelog_spec_def by auto
  then have "t \<in> set (bucket fromVersion toVersion blocks c)" by (cases c) simp_all
  then show "\<exists>c. t \<in> set (bucket fromVersion toVersion blocks c)" ..
next
  assume "\<exists>c. t \<in> set (bucket fromVersion toVersion blocks c)"
  then obtain c where c: "t \<in> set (bucket fromVersion toVersion blocks c)" ..
  then have ne: "bucket fromVersion toVersion blocks c \<noteq> []" by auto
  have "entry_for c (bucket fromVersion toVersion blocks c) \<in> set (changelog_spec fromVersion toVersion blocks)"
    unfolding changelog_spec_def using ne by (cases c) auto
  moreover have "t \<in> set (entry_items (entry_for c (bucket fromVersion toVersion blocks c)))"
    using c by (cases c) simp_all
  ultimately show "\<exists>e \<in> set (changelog_spec fromVersion toVersion blocks). t \<in> set (entry_items e)" ..
qed

lemma relevant_by_version:
  "version v = version w \<Longrightarrow>
   relevant_block fromVersion toVersion v = relevant_block fromVersion toVersion w"
  by (simp add: relevant_block_def)

lemma included_iff_relevant:
  assumes "\<forall>v \<in> set blocks. list_all verchar (version v)"
    and "v \<in> set blocks" "it \<in> set (items v)"
  shows "(\<exists>e \<in> set (changelog_spec fromVersion toVersion blocks). tagged it (version v) \<in> set (entry_items e))
         \<longleftrightarrow> relevant_block fromVersion toVersion v"
proof -
  have "(\<exists>c. tagged it (version v) \<in> set (bucket fromVersion toVersion blocks c))
        \<longleftrightarrow> relevant_block fromVersion toVersion v"
  proof
    assume "\<exists>c. tagged it (version v) \<in> set (bucket fromVersion toVersion blocks c)"
    then obtain w it' where w: "w \<in> set blocks" "relevant_block fromVersion toVersion w"
      and eq: "tagged it (version v) = tagged it' (version w)"
      unfolding bucket_member by blast
    have "version v = version w"
      using tagged_inj_version[OF _ _ eq] assms(1,2) w(1) by blast
    then show "relevant_block fromVersion toVersion v"
      using w(2) relevant_by_version by blast
  next
    assume "relevant_block fromVersion toVersion v"
    then have "tagged it (version v) \<in> set (bucket fromVersion toVersion blocks (category_of it))"
      unfolding bucket_member using assms(2,3) by blast
    then show "\<exists>c. tagged it (version v) \<in> set (bucket fromVersion toVersion blocks c)" ..
  qed
  then show ?thesis unfolding spec_member .
qed

text \<open>Every version the parser records was captured by the heading pattern.\<close>

lemma match_heading_verchar: "match_heading line = Some m \<Longrightarrow> list_all verchar m"
  by (auto simp: match_heading_def Let_def list_all_iff split: if_splits dest: set_takeWhileD)

lemma push_block_verchar:
  assumes "\<forall>v \<in> set versions. list_all verchar (version v)"
    and "\<forall>m. curVer = Some m \<longrightarrow> list_all verchar m"
  shows "\<forall>v \<in> set (push_block versions curVer its). list_all verchar (version v)"
  using assms by (auto simp: push_block_def split: option.splits)

lemma parse_lines_verchar:
  assumes "\<forall>v \<in> set versions. list_all verchar (version v)"
    and "\<forall>m. curVer = Some m \<longrightarrow> list_all verchar m"
  shows "\<forall>v \<in> set (parse_lines lines versions curVer its). list_all verchar (version v)"
  using assms
proof (induction lines arbitrary: versions curVer its)
  case Nil
  then show ?case using push_block_verchar by simp
next
  case (Cons line rest)
  show ?case
  proof (cases "truthy_string (match_heading line)")
    case True
    have "\<forall>m. match_heading line = Some m \<longrightarrow> list_all verchar m"
      using match_heading_verchar by blast
    then have "\<forall>v \<in> set (parse_lines rest (push_block versions curVer its) (match_heading line) []).
        list_all verchar (version v)"
      using Cons.IH push_block_verchar[OF Cons.prems] by blast
    then show ?thesis using True by simp
  next
    case False
    then show ?thesis
      using Cons.IH[OF Cons.prems] by (simp add: Let_def)
  qed
qed

lemma parse_versions_verchar: "\<forall>v \<in> set (parse_versions md). list_all verchar (version v)"
  unfolding parse_versions_def by (rule parse_lines_verchar) simp_all

text \<open>
  Claim C4. For every markdown text and version pair, the changelog parser includes the
  bullets of a \<open>### x.y.z\<close> block iff the block's version is strictly newer than
  \<open>fromVersion\<close> and not newer than \<open>toVersion\<close> under the dotted-integer-tuple comparison;
  each included bullet carries the suffix \<open>" (vX.Y.Z)"\<close> of its block and lies in exactly
  one bucket, chosen by case-insensitive substring match with priority fixed, then
  added-or-initial, then improved-or-updated, then other; the output has one entry per
  non-empty bucket, in the order added, improved, fixed, other. The first conjunct states
  the output as \<open>changelog_spec\<close>, which is written in these words; the second is the
  "iff" on the bullets of the parsed blocks. Version components are taken below \<open>2 ^ 53\<close>.
\<close>

theorem vcParseChangelog_relevant_buckets:
  assumes "dotted_integer fromVersion" "dotted_integer toVersion"
    and "\<forall>v \<in> set (parse_versions md). small_components (version v)"
  shows "vcParseChangelog md fromVersion toVersion =
           changelog_spec fromVersion toVersion (parse_versions md)
       \<and> (\<forall>v \<in> set (parse_versions md). \<forall>it \<in> set (items v).
            (\<exists>e \<in> set (vcParseChangelog md fromVersion toVersion).
                tagged it (version v) \<in> set (entry_items e))
            \<longleftrightarrow> relevant_block fromVersion toVersion v)"
proof -
  have d: "\<forall>v \<in> set (parse_versions md). dotted_integer (version v)"
    using assms(3) parse_versions_verchar by (simp add: dotted_integer_def)
  have eq: "vcParseChangelog md fromVersion toVersion =
      changelog_spec fromVersion toVersion (parse_versions md)"
    by (rule parse_is_spec[OF assms(1,2) d])
  show ?thesis
    unfolding eq using included_iff_relevant[OF parse_versions_verchar] by blast
qed

theorem vcParseChangelog_relevant_buckets_witness:
  "dotted_integer ''1.0.0'' \<and> dotted_integer ''1.1.0''
   \<and> parse_versions ''### 1.0.0\<newline>- Added X\<newline>### 1.1.0\<newline>- Fixed Y'' =
       [\<lparr>version = ''1.0.0'', items = [''Added X'']\<rparr>,
        \<lparr>version = ''1.1.0'', items = [''Fixed Y'']\<rparr>]
   \<and> vcParseChangelog ''### 1.0.0\<newline>- Added X\<newline>### 1.1.0\<newline>- Fixed Y'' ''1.0.0'' ''1.1.0'' =
       [\<lparr>title = ''Fixes'', entry_type = ''fixed'', entry_items = [''Fixed Y (v1.1.0)'']\<rparr>]"
proof -
  let ?md = "''### 1.0.0\<newline>- Added X\<newline>### 1.1.0\<newline>- Fixed Y''"
  have pv: "parse_versions ?md =
     [\<lparr>version = ''1.0.0'', items = [''Added X'']\<rparr>, \<lparr>version = ''1.1.0'', items = [''Fixed Y'']\<rparr>]"
    by code_simp
  have a: "dotted_integer ''1.0.0''"
    by (simp add: dotted_integer_def verchar_def small_components_def is_digit_def digits_value_def)
  have b: "dotted_integer ''1.1.0''"
    by (simp add: dotted_integer_def verchar_def small_components_def is_digit_def digits_value_def)
  have sm: "\<forall>v \<in> set (parse_versions ?md). small_components (version v)"
    unfolding pv by (simp add: small_components_def digits_value_def)
  have c: "category_of ''Fixed Y'' = Fixed" by code_simp
  have sp: "changelog_spec ''1.0.0'' ''1.1.0'' (parse_versions ?md) =
     [\<lparr>title = ''Fixes'', entry_type = ''fixed'', entry_items = [''Fixed Y (v1.1.0)'']\<rparr>]"
    unfolding pv
    by (simp add: changelog_spec_def bucket_def relevant_block_def tuple_greater_def pad_zero_def
        version_tuple_def digits_value_def c tagged_def)
  show ?thesis
    using vcParseChangelog_relevant_buckets[OF a b sm] a b pv sp by simp
qed

section \<open>Properties of \<open>waitForModule\<close>\<close>

lemma inv_call: "wait_inv (waitForModule options signal existing)"
  unfolding waitForModule_def wait_inv_def onAbort_def resolve_def
  by (auto simp: Let_def split: sum.splits)

lemma inv_step:
  assumes "wait_inv st"
  shows "\<exists>st1. wait_step options ev st = Inr st1 \<and> wait_inv st1
         \<and> (promise st \<noteq> Pending \<longrightarrow> promise st1 = promise st)
         \<and> (resolve_calls st \<noteq> [] \<longrightarrow> resolve_calls st1 = resolve_calls st)
         \<and> (aborted st \<longrightarrow> aborted st1)"
  using assms
  unfolding wait_step_def wait_inv_def onAbort_def resolve_def
  by (cases ev) (auto simp: Let_def)

lemma inv_run:
  assumes "wait_inv st"
  shows "\<exists>st1. wait_run options evs st = Inr st1 \<and> wait_inv st1
         \<and> (promise st \<noteq> Pending \<longrightarrow> promise st1 = promise st)
         \<and> (resolve_calls st \<noteq> [] \<longrightarrow> resolve_calls st1 = resolve_calls st)
         \<and> (aborted st \<longrightarrow> aborted st1)"
  using assms
proof (induction evs arbitrary: st)
  case Nil
  then show ?case by simp
next
  case (Cons ev evs)
  obtain st1 where s: "wait_step options ev st = Inr st1" "wait_inv st1"
    "promise st \<noteq> Pending \<longrightarrow> promise st1 = promise st"
    "resolve_calls st \<noteq> [] \<longrightarrow> resolve_calls st1 = resolve_calls st"
    "aborted st \<longrightarrow> aborted st1"
    using inv_step[OF Cons.prems] by blast
  obtain st2 where t: "wait_run options evs st1 = Inr st2" "wait_inv st2"
    "promise st1 \<noteq> Pending \<longrightarrow> promise st2 = promise st1"
    "resolve_calls st1 \<noteq> [] \<longrightarrow> resolve_calls st2 = resolve_calls st1"
    "aborted st1 \<longrightarrow> aborted st2"
    using Cons.IH[OF s(2)] by blast
  show ?case using s t by auto
qed


lemma step_idle:
  assumes "wait_inv st" "wait_step options ev st = Inr st1" "resolve_calls st1 = []"
  shows "st1 = st"
  using assms
  unfolding wait_step_def wait_inv_def onAbort_def resolve_def
  by (cases ev) (auto simp: Let_def split: if_splits)

lemma step_trigger:
  assumes "wait_inv st" "triggers ev st" "wait_step options ev st = Inr st1"
  shows "resolve_calls st1 \<noteq> []"
  using assms
  unfolding wait_step_def wait_inv_def onAbort_def resolve_def triggers_def
  by (cases ev) (auto simp: Let_def split: if_splits)

lemma run_trigger:
  assumes "wait_inv st" "ev \<in> set evs" "triggers ev st" "wait_run options evs st = Inr st2"
  shows "resolve_calls st2 \<noteq> []"
  using assms
proof (induction evs arbitrary: st)
  case Nil
  then show ?case by simp
next
  case (Cons e evs)
  obtain st1 where s: "wait_step options e st = Inr st1" "wait_inv st1"
    "resolve_calls st \<noteq> [] \<longrightarrow> resolve_calls st1 = resolve_calls st"
    using inv_step[OF Cons.prems(1)] by blast
  have r: "wait_run options evs st1 = Inr st2" using Cons.prems(4) s(1) by simp
  obtain st2' where k: "wait_run options evs st1 = Inr st2'"
    "resolve_calls st1 \<noteq> [] \<longrightarrow> resolve_calls st2' = resolve_calls st1"
    using inv_run[OF s(2)] by blast
  show ?case
  proof (cases "resolve_calls st1 = []")
    case False
    then show ?thesis using k r by simp
  next
    case True
    then have same: "st1 = st" using step_idle[OF Cons.prems(1) s(1)] by simp
    have "e \<noteq> ev" using step_trigger[OF Cons.prems(1) _ s(1)] Cons.prems(3) True by blast
    then have "ev \<in> set evs" using Cons.prems(2) by simp
    then show ?thesis using Cons.IH[OF s(2) _ _ r] Cons.prems(3) same by simp
  qed
qed

lemma call_not_found:
  assumes "\<not> truthy m" "\<not> already_aborted signal"
  shows "subscribed (waitForModule options signal (Inr m))"
    and "listener_attached (waitForModule options signal (Inr m)) = (signal \<noteq> None)"
  using assms by (auto simp: waitForModule_def Let_def)

lemma call_settled:
  "(already_aborted signal \<longrightarrow>
      resolve_calls (waitForModule options signal existing) = [ResUndefined]
    \<and> promise (waitForModule options signal existing) = Fulfilled ResUndefined)
   \<and> (\<not> already_aborted signal \<and> truthy m \<longrightarrow>
      resolve_calls (waitForModule options signal (Inr m)) = [ResExisting m]
    \<and> promise (waitForModule options signal (Inr m)) = Fulfilled (ResExisting m))"
  by (auto simp: waitForModule_def Let_def onAbort_def resolve_def)

text \<open>
  Claim C2. For every filter and cancellation signal, \<open>waitForModule\<close> settles its promise
  once: whatever events follow the call, \<open>resolve\<close> is called at most once and nothing
  throws; it is called exactly once as soon as the signal was already aborted, the module
  existed, the attached signal aborts or the host delivers the module. If the signal is
  already aborted at the call, the promise is fulfilled with \<open>undefined\<close> at once (it is
  not rejected). If the signal aborted (at the call or while waiting), a later discovery
  changes neither the calls of \<open>resolve\<close> nor the promise, and does not throw.
\<close>

theorem waitForModule_settles_once:
  "\<exists>st. wait_run options evs (waitForModule options signal existing) = Inr st
     \<and> length (resolve_calls st) \<le> 1
     \<and> (already_aborted signal \<longrightarrow>
            resolve_calls st = [ResUndefined] \<and> promise st = Fulfilled ResUndefined)
     \<and> (aborted st \<longrightarrow>
            resolve_calls st = [ResUndefined]
          \<and> (\<exists>st1. wait_step options (Discover foundModule) st = Inr st1
                 \<and> resolve_calls st1 = resolve_calls st \<and> promise st1 = promise st))
     \<and> (already_aborted signal
          \<or> (\<exists>m. existing = Inr m \<and>
                (truthy m \<or> (signal \<noteq> None \<and> Abort \<in> set evs) \<or> (\<exists>d. Discover d \<in> set evs)))
          \<longrightarrow> length (resolve_calls st) = 1)"
proof -
  let ?st0 = "waitForModule options signal existing"
  have i0: "wait_inv ?st0" by (rule inv_call)
  obtain st where st: "wait_run options evs ?st0 = Inr st" "wait_inv st"
    "promise ?st0 \<noteq> Pending \<longrightarrow> promise st = promise ?st0"
    "resolve_calls ?st0 \<noteq> [] \<longrightarrow> resolve_calls st = resolve_calls ?st0"
    using inv_run[OF i0] by blast
  have len: "length (resolve_calls st) \<le> 1"
    using st(2) unfolding wait_inv_def by auto
  have pre: "already_aborted signal \<longrightarrow>
            resolve_calls st = [ResUndefined] \<and> promise st = Fulfilled ResUndefined"
    using call_settled[of signal options existing] st(3,4) by auto
  obtain st1 where st1: "wait_step options (Discover foundModule) st = Inr st1"
    "promise st \<noteq> Pending \<longrightarrow> promise st1 = promise st"
    "resolve_calls st \<noteq> [] \<longrightarrow> resolve_calls st1 = resolve_calls st"
    using inv_step[OF st(2)] by blast
  have late: "aborted st \<longrightarrow>
            resolve_calls st = [ResUndefined]
          \<and> (\<exists>st1. wait_step options (Discover foundModule) st = Inr st1
                 \<and> resolve_calls st1 = resolve_calls st \<and> promise st1 = promise st)"
    using st(2) st1 unfolding wait_inv_def by auto
  have once: "length (resolve_calls st) = 1"
    if c: "already_aborted signal
          \<or> (\<exists>m. existing = Inr m \<and>
                (truthy m \<or> (signal \<noteq> None \<and> Abort \<in> set evs) \<or> (\<exists>d. Discover d \<in> set evs)))"
  proof -
    have "resolve_calls st \<noteq> []"
    proof (cases "already_aborted signal")
      case True
      then show ?thesis using pre by simp
    next
      case False
      then obtain m where m: "existing = Inr m"
        "truthy m \<or> (signal \<noteq> None \<and> Abort \<in> set evs) \<or> (\<exists>d. Discover d \<in> set evs)"
        using c by blast
      show ?thesis
      proof (cases "truthy m")
        case True
        then show ?thesis
          using call_settled[of signal options existing m] False m(1) st(4) by auto
      next
        case nf: False
        have sub: "subscribed ?st0" and lis: "listener_attached ?st0 = (signal \<noteq> None)"
          using call_not_found[OF nf False] m(1) by simp_all
        from m(2) nf consider "signal \<noteq> None" "Abort \<in> set evs" | d where "Discover d \<in> set evs"
          by blast
        then show ?thesis
        proof cases
          case 1
          have "triggers Abort ?st0" using lis 1(1) by (simp add: triggers_def)
          then show ?thesis using run_trigger[OF i0 1(2) _ st(1)] by simp
        next
          case 2
          have "triggers (Discover d) ?st0" using sub by (simp add: triggers_def)
          then show ?thesis using run_trigger[OF i0 2 _ st(1)] by simp
        qed
      qed
    qed
    then show ?thesis using len by (cases "resolve_calls st") auto
  qed
  show ?thesis using st(1) len pre late once by blast
qed


theorem waitForModule_settles_once_witness:
  "\<not> already_aborted (Some \<lparr>signal_aborted = False\<rparr>)
   \<and> wait_run \<lparr>defaultExport = True, raw = False\<rparr> [Abort]
        (waitForModule \<lparr>defaultExport = True, raw = False\<rparr> (Some \<lparr>signal_aborted = False\<rparr>) (Inr JUndefined))
      = Inr \<lparr>aborted = True, listener_attached = False, subscribed = True,
            resolve_calls = [ResUndefined], promise = Fulfilled ResUndefined\<rparr>
   \<and> wait_step \<lparr>defaultExport = True, raw = False\<rparr> (Discover (FoundModule False 7))
          \<lparr>aborted = True, listener_attached = False, subscribed = True,
            resolve_calls = [ResUndefined], promise = Fulfilled ResUndefined\<rparr>
      = Inr \<lparr>aborted = True, listener_attached = False, subscribed = False,
            resolve_calls = [ResUndefined], promise = Fulfilled ResUndefined\<rparr>
   \<and> (\<exists>st. wait_run \<lparr>defaultExport = True, raw = False\<rparr> [Abort]
            (waitForModule \<lparr>defaultExport = True, raw = False\<rparr> (Some \<lparr>signal_aborted = False\<rparr>) (Inr JUndefined)) = Inr st
          \<and> length (resolve_calls st) = 1)"
proof -
  have run: "wait_run \<lparr>defaultExport = True, raw = False\<rparr> [Abort]
        (waitForModule \<lparr>defaultExport = True, raw = False\<rparr> (Some \<lparr>signal_aborted = False\<rparr>) (Inr JUndefined))
      = Inr \<lparr>aborted = True, listener_attached = False, subscribed = True,
            resolve_calls = [ResUndefined], promise = Fulfilled ResUndefined\<rparr>"
    by (simp add: waitForModule_def already_aborted_def wait_step_def onAbort_def resolve_def)
  have late: "wait_step \<lparr>defaultExport = True, raw = False\<rparr> (Discover (FoundModule False 7))
          \<lparr>aborted = True, listener_attached = False, subscribed = True,
            resolve_calls = [ResUndefined], promise = Fulfilled ResUndefined\<rparr>
      = Inr \<lparr>aborted = True, listener_attached = False, subscribed = False,
            resolve_calls = [ResUndefined], promise = Fulfilled ResUndefined\<rparr>"
    by (simp add: wait_step_def)
  have once: "\<exists>st. wait_run \<lparr>defaultExport = True, raw = False\<rparr> [Abort]
            (waitForModule \<lparr>defaultExport = True, raw = False\<rparr> (Some \<lparr>signal_aborted = False\<rparr>) (Inr JUndefined)) = Inr st
          \<and> length (resolve_calls st) = 1"
    using waitForModule_settles_once[of "\<lparr>defaultExport = True, raw = False\<rparr>" "[Abort]"
        "Some \<lparr>signal_aborted = False\<rparr>" "Inr JUndefined" "FoundModule False 7"]
    by auto
  show ?thesis using run late once by (simp add: already_aborted_def)
qed

section \<open>Properties of the plugin assembler: missing metadata\<close>

lemma convert_reaches_validation:
  assumes "overridden_record src filename sourcePath = Inr f2"
  shows "\<exists>pluginMeta inst st1 st2.
      parsedMeta src = Inr pluginMeta
    \<and> parse_and_queue src filename sourcePath st = (Inr (object_assign (initial_final filename sourcePath) pluginMeta), st1)
    \<and> instantiate src filename st1 = (Inr inst, st2)
    \<and> legacy_getters inst (object_assign (initial_final filename sourcePath) pluginMeta) = Inr f2
    \<and> notices st2 = notices st"
  using assms
  unfolding overridden_record_def parse_and_queue_def instantiate_def log_event_def
  by (auto simp: Let_def split: sum.splits option.splits)

lemma validate_missing:
  assumes "whatsMissing final \<noteq> []"
  shows "validate h final st =
     (Inl (Error (''Incomplete plugin, '' @ innerHTML h (incomplete_html final (whatsMissing final)))),
      st\<lparr>notices := notices st @ [showNotice (incomplete_html final (whatsMissing final)) 0 [(''Didn't ask ;-)'', False)]]\<rparr>)"
  using assms by (simp add: validate_def Let_def)

lemma validate_complete:
  assumes "whatsMissing final = []"
  shows "validate h final st = (Inr (), st)"
  using assms by (simp add: validate_def Let_def)

lemma remove_keeps_notices: "notices (remove_from_queue final st) = notices st"
  by (simp add: remove_from_queue_def log_event_def split: option.splits)

lemma missing_exact:
  "prop \<in> set neededMeta \<Longrightarrow> prop \<in> set (whatsMissing final) \<longleftrightarrow> \<not> truthy (field final prop)"
  by (simp add: whatsMissing_def)

lemma dedupe_fields:
  "field (dedupe_name h d f2) ''version'' = field f2 ''version''"
  "field (dedupe_name h d f2) ''description'' = field f2 ''description''"
  "\<not> (d \<and> occupied h (field f2 ''name'')) \<Longrightarrow> field (dedupe_name h d f2) ''name'' = field f2 ''name''"
  by (auto simp: dedupe_name_def field_def Let_def)

lemma notice_kind:
  "persistent (showNotice html 0 buttons)" "dismissible (showNotice html 0 buttons)"
  by (simp_all add: persistent_def dismissible_def showNotice_def)


lemma html_names_missing:
  "\<exists>before after. incomplete_html final missing = before @ ''<strong>'' @ toUpperCase (join '', '' missing) @ ''</strong>'' @ after"
proof -
  have "incomplete_html final missing =
      (''The BD Plugin ''
       @ js_ToString (if truthy (field final ''name'') then field final ''name'' else field final ''id'')
       @ '' is missing the following metadata below<br><br>\<newline>        '')
      @ ''<strong>'' @ toUpperCase (join '', '' missing) @ ''</strong>''
      @ ''<br><br>\<newline>        The plugin could not be started, Please fix.''"
    by (simp add: incomplete_html_def)
  then show ?thesis by blast
qed

text \<open>
  Claim C6. Whenever the record that \<open>convertPlugin\<close> checks (the record after metadata
  parsing and the legacy getters, with the duplicate-name suffix applied) lacks one of
  \<open>name\<close>, \<open>version\<close>, \<open>description\<close>, the assembler raises a notice that does not close by
  itself and can be closed by hand, whose text names, in upper case, exactly the fields
  that are missing, and then throws: no plugin is returned for registration. A record that
  lacks none of them raises no notice and is returned. The suffix never changes \<open>version\<close>
  or \<open>description\<close>, and changes \<open>name\<close> only when the host registry has an entry without
  an instance under that name.
\<close>

theorem convertPlugin_missing_metadata_notice:
  assumes "overridden_record src filename sourcePath = Inr f2"
  shows "(whatsMissing (dedupe_name h detect f2) \<noteq> [] \<longrightarrow>
           (\<exists>st1 n before after.
               convertPlugin h src filename detect sourcePath st =
                 (Inl (Error (''Incomplete plugin, '' @ innerHTML h (notice_content n))), st1)
             \<and> notices st1 = notices st @ [n] \<and> persistent n \<and> dismissible n
             \<and> notice_content n =
                   before @ ''<strong>''
                   @ toUpperCase (join '', '' (whatsMissing (dedupe_name h detect f2)))
                   @ ''</strong>'' @ after))
       \<and> (whatsMissing (dedupe_name h detect f2) = [] \<longrightarrow>
           (\<exists>a st1. convertPlugin h src filename detect sourcePath st = (Inr a, st1)
              \<and> notices st1 = notices st))
       \<and> (\<forall>prop \<in> set neededMeta.
             prop \<in> set (whatsMissing (dedupe_name h detect f2))
             \<longleftrightarrow> \<not> truthy (field (dedupe_name h detect f2) prop))
       \<and> field (dedupe_name h detect f2) ''version'' = field f2 ''version''
       \<and> field (dedupe_name h detect f2) ''description'' = field f2 ''description''
       \<and> (\<not> (detect \<and> occupied h (field f2 ''name'')) \<longrightarrow>
             field (dedupe_name h detect f2) ''name'' = field f2 ''name'')"
proof -
  let ?final = "dedupe_name h detect f2"
  obtain pluginMeta inst st1 st2 where r:
    "parse_and_queue src filename sourcePath st =
       (Inr (object_assign (initial_final filename sourcePath) pluginMeta), st1)"
    "instantiate src filename st1 = (Inr inst, st2)"
    "legacy_getters inst (object_assign (initial_final filename sourcePath) pluginMeta) = Inr f2"
    "notices st2 = notices st"
    using convert_reaches_validation[OF assms] by blast
  have conv: "convertPlugin h src filename detect sourcePath st =
      (case validate h ?final st2 of
         (Inl e, st3) \<Rightarrow> (Inl e, st3)
       | (Inr u, st3) \<Rightarrow>
           (Inr \<lparr>assembled_fields = ?final, assembled_instance = inst\<rparr>, remove_from_queue ?final st3))"
    by (simp add: convertPlugin_def r Let_def)
  have missing: "whatsMissing ?final \<noteq> [] \<longrightarrow>
           (\<exists>st1 n before after.
               convertPlugin h src filename detect sourcePath st =
                 (Inl (Error (''Incomplete plugin, '' @ innerHTML h (notice_content n))), st1)
             \<and> notices st1 = notices st @ [n] \<and> persistent n \<and> dismissible n
             \<and> notice_content n =
                   before @ ''<strong>'' @ toUpperCase (join '', '' (whatsMissing ?final))
                   @ ''</strong>'' @ after)"
  proof
    assume m: "whatsMissing ?final \<noteq> []"
    let ?n = "showNotice (incomplete_html ?final (whatsMissing ?final)) 0 [(''Didn't ask ;-)'', False)]"
    have c: "notice_content ?n = incomplete_html ?final (whatsMissing ?final)"
      by (simp add: showNotice_def)
    obtain before after where ba: "notice_content ?n =
        before @ ''<strong>'' @ toUpperCase (join '', '' (whatsMissing ?final)) @ ''</strong>'' @ after"
      using html_names_missing[of ?final "whatsMissing ?final"] c by metis
    have "convertPlugin h src filename detect sourcePath st =
        (Inl (Error (''Incomplete plugin, '' @ innerHTML h (notice_content ?n))),
         st2\<lparr>notices := notices st2 @ [?n]\<rparr>)"
      unfolding conv validate_missing[OF m] c by simp
    moreover have "notices (st2\<lparr>notices := notices st2 @ [?n]\<rparr>) = notices st @ [?n]"
      using r(4) by simp
    ultimately show "\<exists>st1 n before after.
               convertPlugin h src filename detect sourcePath st =
                 (Inl (Error (''Incomplete plugin, '' @ innerHTML h (notice_content n))), st1)
             \<and> notices st1 = notices st @ [n] \<and> persistent n \<and> dismissible n
             \<and> notice_content n =
                   before @ ''<strong>'' @ toUpperCase (join '', '' (whatsMissing ?final))
                   @ ''</strong>'' @ after"
      using notice_kind[of "incomplete_html ?final (whatsMissing ?final)"] ba by blast
  qed
  have complete: "whatsMissing ?final = [] \<longrightarrow>
           (\<exists>a st1. convertPlugin h src filename detect sourcePath st = (Inr a, st1)
              \<and> notices st1 = notices st)"
    using conv r(4) by (auto simp: validate_complete remove_keeps_notices)
  show ?thesis
    using missing complete missing_exact[of _ ?final] dedupe_fields by blast
qed


theorem convertPlugin_missing_metadata_notice_witness:
  "overridden_record \<lparr>parsedMeta = Inr [(''name'', JStr ''Foo''), (''version'', JStr ''1.0.0'')], evaluated = None,
        instantiated = Inr \<lparr>load_method = None, getName = None, getVersion = None, getDescription = None\<rparr>\<rparr>
       ''foo.plugin.js'' ''/BD/plugins'' = Inr (object_assign (initial_final ''foo.plugin.js'' ''/BD/plugins'')
               [(''name'', JStr ''Foo''), (''version'', JStr ''1.0.0'')])
   \<and> whatsMissing (dedupe_name \<lparr>occupied = (\<lambda>n. False), innerHTML = (\<lambda>html. html)\<rparr> True
          (object_assign (initial_final ''foo.plugin.js'' ''/BD/plugins'')
               [(''name'', JStr ''Foo''), (''version'', JStr ''1.0.0'')])) = [''description'']
   \<and> (\<exists>st1 n before after.
        convertPlugin \<lparr>occupied = (\<lambda>n. False), innerHTML = (\<lambda>html. html)\<rparr>
          \<lparr>parsedMeta = Inr [(''name'', JStr ''Foo''), (''version'', JStr ''1.0.0'')], evaluated = None,
        instantiated = Inr \<lparr>load_method = None, getName = None, getVersion = None, getDescription = None\<rparr>\<rparr>
          ''foo.plugin.js'' True ''/BD/plugins'' \<lparr>queuedPlugins = [], notices = [], error_log = [], trace = []\<rparr> =
            (Inl (Error (''Incomplete plugin, '' @ notice_content n)), st1)
      \<and> notices st1 = [n] \<and> persistent n \<and> dismissible n
      \<and> notice_content n = before @ ''<strong>DESCRIPTION</strong>'' @ after)"
proof -
  let ?src = "\<lparr>parsedMeta = Inr [(''name'', JStr ''Foo''), (''version'', JStr ''1.0.0'')], evaluated = None,
        instantiated = Inr \<lparr>load_method = None, getName = None, getVersion = None, getDescription = None\<rparr>\<rparr>"
  let ?h = "\<lparr>occupied = (\<lambda>n. False), innerHTML = (\<lambda>html. html)\<rparr>"
  let ?f2 = "(object_assign (initial_final ''foo.plugin.js'' ''/BD/plugins'')
               [(''name'', JStr ''Foo''), (''version'', JStr ''1.0.0'')])"
  have o: "overridden_record ?src ''foo.plugin.js'' ''/BD/plugins'' = Inr ?f2"
    by (simp add: overridden_record_def legacy_getters_def apply_getter_def)
  have m: "whatsMissing (dedupe_name ?h True ?f2) = [''description'']"
    by (simp add: whatsMissing_def neededMeta_def dedupe_name_def field_def object_assign_def
        initial_final_def Let_def)
  have u: "toUpperCase (join '', '' [''description'']) = ''DESCRIPTION''"
    by code_simp
  show ?thesis
    using convertPlugin_missing_metadata_notice[OF o, of ?h True
        "\<lparr>queuedPlugins = [], notices = [], error_log = [], trace = []\<rparr>"]
    unfolding m u using o m by auto
qed

section \<open>Properties of the plugin assembler: the queue of plugins in flight\<close>

lemma findIndex_Some:
  "findIndex P xs = Some i \<Longrightarrow> i < length xs \<and> P (xs ! i) \<and> (\<forall>j < i. \<not> P (xs ! j))"
proof (induction xs arbitrary: i)
  case Nil
  then show ?case by simp
next
  case (Cons x xs)
  show ?case
  proof (cases "P x")
    case True
    then show ?thesis using Cons.prems by simp
  next
    case False
    then obtain k where k: "findIndex P xs = Some k" "i = Suc k"
      using Cons.prems by auto
    have "k < length xs \<and> P (xs ! k) \<and> (\<forall>j < k. \<not> P (xs ! j))" using Cons.IH[OF k(1)] .
    then show ?thesis using False k(2) by (auto simp: nth_Cons split: nat.splits)
  qed
qed

lemma findIndex_None: "findIndex P xs = None \<longleftrightarrow> (\<forall>x \<in> set xs. \<not> P x)"
  by (induction xs) auto

lemma findIndex_append_new:
  assumes "\<forall>x \<in> set q. \<not> P x" "P y"
  shows "findIndex P (q @ [y]) = Some (length q)"
  using assms by (induction q) auto

lemma splice_first_new:
  assumes "fn \<noteq> JNaN" "fn \<notin> set q"
  shows "findIndex (\<lambda>x. strict_equal x fn) (q @ [fn]) = Some (length q)"
    and "splice_first fn (q @ [fn]) = q"
proof -
  show i: "findIndex (\<lambda>x. strict_equal x fn) (q @ [fn]) = Some (length q)"
    using assms by (intro findIndex_append_new) (auto simp: strict_equal_def)
  show "splice_first fn (q @ [fn]) = q"
    unfolding splice_first_def i by simp
qed

lemma parse_and_queue_fail:
  assumes "parsedMeta src = Inl e"
  shows "\<exists>st1. parse_and_queue src filename sourcePath st = (Inl e, st1)
      \<and> trace st1 = trace st @ [ParseMeta filename] \<and> queuedPlugins st1 = queuedPlugins st"
  using assms by (simp add: parse_and_queue_def log_event_def Let_def)

lemma parse_and_queue_ok:
  assumes "parsedMeta src = Inr pluginMeta"
  shows "\<exists>st1. parse_and_queue src filename sourcePath st =
        (Inr (object_assign (initial_final filename sourcePath) pluginMeta), st1)
      \<and> trace st1 = trace st @ [ParseMeta filename,
            QueuePush (field (object_assign (initial_final filename sourcePath) pluginMeta) ''filename'')]
      \<and> queuedPlugins st1 = queuedPlugins st @
            [field (object_assign (initial_final filename sourcePath) pluginMeta) ''filename'']"
  using assms by (simp add: parse_and_queue_def log_event_def Let_def)

lemma instantiate_trace:
  "\<exists>r st2 rest. instantiate src filename st1 = (r, st2)
     \<and> trace st2 = trace st1 @ EvalSource filename # rest
     \<and> queuedPlugins st2 = queuedPlugins st1
     \<and> queue_after rest q = q
     \<and> ((\<exists>inst. r = Inr inst) \<longrightarrow> rest = [Instantiate])"
  unfolding instantiate_def log_event_def
  by (auto simp: Let_def split: option.splits sum.splits)

lemma validate_trace:
  "\<exists>r st3. validate h final st2 = (r, st3) \<and> trace st3 = trace st2 \<and> queuedPlugins st3 = queuedPlugins st2"
  by (simp add: validate_def Let_def)

lemma remove_trace:
  "\<exists>tail. trace (remove_from_queue final st) = trace st @ tail
      \<and> queuedPlugins (remove_from_queue final st) = splice_first (field final ''filename'') (queuedPlugins st)
      \<and> queue_after tail (queuedPlugins st) = splice_first (field final ''filename'') (queuedPlugins st)
      \<and> (\<forall>i. findIndex (\<lambda>x. strict_equal x (field final ''filename'')) (queuedPlugins st) = Some i
             \<longrightarrow> tail = [QueueSplice i])"
  by (auto simp: remove_from_queue_def log_event_def splice_first_def split: option.splits)

lemma legacy_getters_filename:
  assumes "legacy_getters inst f1 = Inr f2"
  shows "field f2 ''filename'' = field f1 ''filename''"
  using assms
  by (auto simp: legacy_getters_def apply_getter_def field_def split: sum.splits option.splits)

lemma dedupe_filename: "field (dedupe_name h d f2) ''filename'' = field f2 ''filename''"
  by (simp add: dedupe_name_def field_def Let_def)

lemma queue_after_append: "queue_after (xs @ ys) q = queue_after ys (queue_after xs q)"
  by (induction xs q rule: queue_after.induct) simp_all


lemma object_assign_untouched:
  "k \<notin> fst ` set pluginMeta \<Longrightarrow> object_assign final pluginMeta k = final k"
  unfolding object_assign_def
  by (induction pluginMeta arbitrary: final) (auto split: prod.splits)

lemma filename_kept:
  "''filename'' \<notin> fst ` set pluginMeta \<Longrightarrow>
   field (object_assign (initial_final filename sourcePath) pluginMeta) ''filename'' = JStr filename"
  by (simp add: field_def object_assign_untouched initial_final_def)

lemma convert_after_parse:
  fixes filename sourcePath :: string
  assumes "parsedMeta src = Inr pluginMeta"
  defines "f1 \<equiv> object_assign (initial_final filename sourcePath) pluginMeta"
  defines "fn \<equiv> field (object_assign (initial_final filename sourcePath) pluginMeta) ''filename''"
  shows "\<exists>r st1 rest. convertPlugin h src filename detect sourcePath st = (r, st1)
     \<and> trace st1 = trace st @ [ParseMeta filename, QueuePush fn, EvalSource filename] @ rest
     \<and> queuedPlugins st1 = queue_after rest (queuedPlugins st @ [fn])
     \<and> ((\<exists>e. r = Inl e) \<longrightarrow> queuedPlugins st1 = queuedPlugins st @ [fn])
     \<and> ((\<exists>a. r = Inr a) \<longrightarrow>
           queuedPlugins st1 = splice_first fn (queuedPlugins st @ [fn])
         \<and> (\<forall>i. findIndex (\<lambda>x. strict_equal x fn) (queuedPlugins st @ [fn]) = Some i
                \<longrightarrow> rest = [Instantiate, QueueSplice i]))"
proof -
  obtain st1 where p: "parse_and_queue src filename sourcePath st = (Inr f1, st1)"
    "trace st1 = trace st @ [ParseMeta filename, QueuePush fn]"
    "queuedPlugins st1 = queuedPlugins st @ [fn]"
    using parse_and_queue_ok[OF assms(1)] unfolding f1_def fn_def by blast
  obtain ri st2 rest where i: "instantiate src filename st1 = (ri, st2)"
    "trace st2 = trace st1 @ EvalSource filename # rest"
    "queuedPlugins st2 = queuedPlugins st1"
    "queue_after rest (queuedPlugins st @ [fn]) = queuedPlugins st @ [fn]"
    "(\<exists>inst. ri = Inr inst) \<longrightarrow> rest = [Instantiate]"
    using instantiate_trace[of src filename st1 "queuedPlugins st @ [fn]"] by blast
  have t2: "trace st2 = trace st @ [ParseMeta filename, QueuePush fn, EvalSource filename] @ rest"
    using p(2) i(2) by simp
  have q2: "queuedPlugins st2 = queuedPlugins st @ [fn]" using p(3) i(3) by simp
  show ?thesis
  proof (cases ri)
    case (Inl e)
    then have "convertPlugin h src filename detect sourcePath st = (Inl e, st2)"
      by (simp add: convertPlugin_def p(1) i(1))
    then show ?thesis using t2 q2 i(4) by auto
  next
    case (Inr inst)
    then have rest: "rest = [Instantiate]" using i(5) by blast
    show ?thesis
    proof (cases "legacy_getters inst f1")
      case (Inl e)
      then have "convertPlugin h src filename detect sourcePath st = (Inl e, st2)"
        by (simp add: convertPlugin_def p(1) i(1) Inr)
      then show ?thesis using t2 q2 i(4) by auto
    next
      case g: (Inr f2)
      let ?f3 = "dedupe_name h detect f2"
      have fn3: "field ?f3 ''filename'' = fn"
        using legacy_getters_filename[OF g] by (simp add: dedupe_filename fn_def f1_def)
      obtain rv st3 where v: "validate h ?f3 st2 = (rv, st3)" "trace st3 = trace st2"
        "queuedPlugins st3 = queuedPlugins st2"
        using validate_trace by blast
      show ?thesis
      proof (cases rv)
        case (Inl e)
        then have "convertPlugin h src filename detect sourcePath st = (Inl e, st3)"
          by (simp add: convertPlugin_def p(1) i(1) Inr g v(1) Let_def)
        then show ?thesis using t2 q2 i(4) v(2,3) by auto
      next
        case ok: (Inr u)
        obtain tail where r: "trace (remove_from_queue ?f3 st3) = trace st3 @ tail"
          "queuedPlugins (remove_from_queue ?f3 st3) = splice_first fn (queuedPlugins st3)"
          "queue_after tail (queuedPlugins st3) = splice_first fn (queuedPlugins st3)"
          "\<forall>i. findIndex (\<lambda>x. strict_equal x fn) (queuedPlugins st3) = Some i \<longrightarrow> tail = [QueueSplice i]"
          using remove_trace[of ?f3 st3] unfolding fn3 by blast
        have c: "convertPlugin h src filename detect sourcePath st =
            (Inr \<lparr>assembled_fields = ?f3, assembled_instance = inst\<rparr>, remove_from_queue ?f3 st3)"
          by (simp add: convertPlugin_def p(1) i(1) Inr g v(1) ok Let_def)
        have t: "trace (remove_from_queue ?f3 st3) =
            trace st @ [ParseMeta filename, QueuePush fn, EvalSource filename] @ (Instantiate # tail)"
          using r(1) v(2) t2 rest by simp
        have q: "queuedPlugins (remove_from_queue ?f3 st3) = queue_after (Instantiate # tail) (queuedPlugins st @ [fn])"
          using r(2,3) v(3) q2 by simp
        have s: "queuedPlugins (remove_from_queue ?f3 st3) = splice_first fn (queuedPlugins st @ [fn])"
          using r(2) v(3) q2 by simp
        have idx: "\<forall>i. findIndex (\<lambda>x. strict_equal x fn) (queuedPlugins st @ [fn]) = Some i
                \<longrightarrow> Instantiate # tail = [Instantiate, QueueSplice i]"
          using r(4) v(3) q2 by simp
        show ?thesis using c t q s idx by blast
      qed
    qed
  qed
qed


text \<open>
  Claim C3 says that the placeholder is queued before metadata parsing begins and leaves
  the queue on every failure. In the code the push comes after the parser has returned:
  a source whose metadata does not parse is never queued (the only step is the parse), and
  for a source that assembles the parse precedes the push.
\<close>

theorem convertPlugin_queue_order_counterexample:
  "convertPlugin \<lparr>occupied = (\<lambda>n. False), innerHTML = (\<lambda>html. html)\<rparr>
      \<lparr>parsedMeta = Inl (Error ''bad meta''), evaluated = None,
        instantiated = Inr \<lparr>load_method = None, getName = None, getVersion = None, getDescription = None\<rparr>\<rparr>
      ''a.plugin.js'' False [] \<lparr>queuedPlugins = [], notices = [], error_log = [], trace = []\<rparr>
   = (Inl (Error ''bad meta''),
      \<lparr>queuedPlugins = [], notices = [],
       error_log = [''Something snapped during parsing of meta for file: a.plugin.js''],
       trace = [ParseMeta ''a.plugin.js'']\<rparr>)
   \<and> trace (snd (convertPlugin \<lparr>occupied = (\<lambda>n. False), innerHTML = (\<lambda>html. html)\<rparr>
      \<lparr>parsedMeta = Inr [(''name'', JStr ''Foo''), (''version'', JStr ''1.0.0''), (''description'', JStr ''d'')],
        evaluated = None, instantiated = Inr \<lparr>load_method = None, getName = None, getVersion = None, getDescription = None\<rparr>\<rparr>
      ''a.plugin.js'' False [] \<lparr>queuedPlugins = [], notices = [], error_log = [], trace = []\<rparr>))
     = [ParseMeta ''a.plugin.js'', QueuePush (JStr ''a.plugin.js''), EvalSource ''a.plugin.js'',
        Instantiate, QueueSplice 0]"
  by (simp add: convertPlugin_def parse_and_queue_def instantiate_def legacy_getters_def
      apply_getter_def dedupe_name_def validate_def whatsMissing_def neededMeta_def
      remove_from_queue_def splice_first_def strict_equal_def log_event_def field_def
      object_assign_def initial_final_def Let_def)

text \<open>
  Claim C3, amended. The assembler parses the metadata first. If the parser throws, the
  queue is not touched. Otherwise the placeholder is pushed right after the metadata has
  been merged into the record and before the source is evaluated, so it is in the queue
  while the source is evaluated and instantiated; when the assembly completes, the first
  queued entry with the record's filename is removed, which is the placeholder itself
  whenever no earlier entry holds that filename. The filename is the one given to
  \<open>convertPlugin\<close> unless the metadata redefines it.
\<close>

theorem convertPlugin_queue_window:
  fixes filename sourcePath :: string
  shows "(\<forall>e. parsedMeta src = Inl e \<longrightarrow>
      (\<exists>st1. convertPlugin h src filename detect sourcePath st = (Inl e, st1)
         \<and> trace st1 = trace st @ [ParseMeta filename]
         \<and> queuedPlugins st1 = queuedPlugins st))
   \<and> (\<forall>pluginMeta. parsedMeta src = Inr pluginMeta \<longrightarrow>
      (\<exists>r st1 rest. convertPlugin h src filename detect sourcePath st = (r, st1)
         \<and> trace st1 = trace st @ [ParseMeta filename, QueuePush (field (object_assign (initial_final filename sourcePath) pluginMeta) ''filename''), EvalSource filename] @ rest
         \<and> queue_after [ParseMeta filename] (queuedPlugins st) = queuedPlugins st
         \<and> field (object_assign (initial_final filename sourcePath) pluginMeta) ''filename'' \<in> set (queue_after [ParseMeta filename, QueuePush (field (object_assign (initial_final filename sourcePath) pluginMeta) ''filename''), EvalSource filename]
                         (queuedPlugins st))
         \<and> queuedPlugins st1 =
               queue_after ([ParseMeta filename, QueuePush (field (object_assign (initial_final filename sourcePath) pluginMeta) ''filename''), EvalSource filename] @ rest)
                 (queuedPlugins st)
         \<and> ((\<exists>a. r = Inr a) \<longrightarrow>
               queuedPlugins st1 = splice_first (field (object_assign (initial_final filename sourcePath) pluginMeta) ''filename'') (queuedPlugins st @ [field (object_assign (initial_final filename sourcePath) pluginMeta) ''filename''])
             \<and> (field (object_assign (initial_final filename sourcePath) pluginMeta) ''filename'' \<noteq> JNaN \<and> field (object_assign (initial_final filename sourcePath) pluginMeta) ''filename'' \<notin> set (queuedPlugins st) \<longrightarrow>
                   queuedPlugins st1 = queuedPlugins st
                 \<and> rest = [Instantiate, QueueSplice (length (queuedPlugins st))]))
         \<and> (''filename'' \<notin> fst ` set pluginMeta \<longrightarrow> field (object_assign (initial_final filename sourcePath) pluginMeta) ''filename'' = JStr filename)))"
proof (intro conjI allI impI)
  fix e assume "parsedMeta src = Inl e"
  then obtain st1 where "parse_and_queue src filename sourcePath st = (Inl e, st1)"
    "trace st1 = trace st @ [ParseMeta filename]" "queuedPlugins st1 = queuedPlugins st"
    using parse_and_queue_fail by blast
  then show "\<exists>st1. convertPlugin h src filename detect sourcePath st = (Inl e, st1)
         \<and> trace st1 = trace st @ [ParseMeta filename]
         \<and> queuedPlugins st1 = queuedPlugins st"
    by (simp add: convertPlugin_def)
next
  fix pluginMeta assume pm: "parsedMeta src = Inr pluginMeta"
  let ?fn = "field (object_assign (initial_final filename sourcePath) pluginMeta) ''filename''"
  obtain r st1 rest where c: "convertPlugin h src filename detect sourcePath st = (r, st1)"
    "trace st1 = trace st @ [ParseMeta filename, QueuePush ?fn, EvalSource filename] @ rest"
    "queuedPlugins st1 = queue_after rest (queuedPlugins st @ [?fn])"
    "(\<exists>a. r = Inr a) \<longrightarrow>
           queuedPlugins st1 = splice_first ?fn (queuedPlugins st @ [?fn])
         \<and> (\<forall>i. findIndex (\<lambda>x. strict_equal x ?fn) (queuedPlugins st @ [?fn]) = Some i
                \<longrightarrow> rest = [Instantiate, QueueSplice i])"
    using convert_after_parse[OF pm, of h filename detect sourcePath st] by blast
  have q: "queuedPlugins st1 =
      queue_after ([ParseMeta filename, QueuePush ?fn, EvalSource filename] @ rest) (queuedPlugins st)"
    using c(3) by simp
  have fresh: "(\<exists>a. r = Inr a) \<longrightarrow>
               queuedPlugins st1 = splice_first ?fn (queuedPlugins st @ [?fn])
             \<and> (?fn \<noteq> JNaN \<and> ?fn \<notin> set (queuedPlugins st) \<longrightarrow>
                   queuedPlugins st1 = queuedPlugins st
                 \<and> rest = [Instantiate, QueueSplice (length (queuedPlugins st))])"
    using c(4) splice_first_new[of ?fn "queuedPlugins st"] by auto
  show "\<exists>r st1 rest. convertPlugin h src filename detect sourcePath st = (r, st1)
         \<and> trace st1 = trace st @ [ParseMeta filename, QueuePush ?fn, EvalSource filename] @ rest
         \<and> queue_after [ParseMeta filename] (queuedPlugins st) = queuedPlugins st
         \<and> ?fn \<in> set (queue_after [ParseMeta filename, QueuePush ?fn, EvalSource filename]
                         (queuedPlugins st))
         \<and> queuedPlugins st1 =
               queue_after ([ParseMeta filename, QueuePush ?fn, EvalSource filename] @ rest)
                 (queuedPlugins st)
         \<and> ((\<exists>a. r = Inr a) \<longrightarrow>
               queuedPlugins st1 = splice_first ?fn (queuedPlugins st @ [?fn])
             \<and> (?fn \<noteq> JNaN \<and> ?fn \<notin> set (queuedPlugins st) \<longrightarrow>
                   queuedPlugins st1 = queuedPlugins st
                 \<and> rest = [Instantiate, QueueSplice (length (queuedPlugins st))]))
         \<and> (''filename'' \<notin> fst ` set pluginMeta \<longrightarrow> ?fn = JStr filename)"
    using c(1,2) q fresh filename_kept[of pluginMeta filename sourcePath] by auto
qed


theorem convertPlugin_queue_window_witness:
  "parsedMeta \<lparr>parsedMeta = Inr [(''name'', JStr ''Foo''), (''version'', JStr ''1.0.0''), (''description'', JStr ''d'')],
        evaluated = None, instantiated = Inr \<lparr>load_method = None, getName = None, getVersion = None, getDescription = None\<rparr>\<rparr> = Inr [(''name'', JStr ''Foo''), (''version'', JStr ''1.0.0''), (''description'', JStr ''d'')]
   \<and> field (object_assign (initial_final ''a.plugin.js'' []) [(''name'', JStr ''Foo''), (''version'', JStr ''1.0.0''), (''description'', JStr ''d'')]) ''filename''
       = JStr ''a.plugin.js''
   \<and> (\<exists>r st1 rest. convertPlugin \<lparr>occupied = (\<lambda>n. False), innerHTML = (\<lambda>html. html)\<rparr>
          \<lparr>parsedMeta = Inr [(''name'', JStr ''Foo''), (''version'', JStr ''1.0.0''), (''description'', JStr ''d'')],
        evaluated = None, instantiated = Inr \<lparr>load_method = None, getName = None, getVersion = None, getDescription = None\<rparr>\<rparr>
          ''a.plugin.js'' False [] \<lparr>queuedPlugins = [], notices = [], error_log = [], trace = []\<rparr> = (r, st1)
        \<and> trace st1 = [ParseMeta ''a.plugin.js'', QueuePush (JStr ''a.plugin.js''),
                        EvalSource ''a.plugin.js''] @ rest)"
proof -
  have p: "parsedMeta \<lparr>parsedMeta = Inr [(''name'', JStr ''Foo''), (''version'', JStr ''1.0.0''), (''description'', JStr ''d'')],
        evaluated = None, instantiated = Inr \<lparr>load_method = None, getName = None, getVersion = None, getDescription = None\<rparr>\<rparr> = Inr [(''name'', JStr ''Foo''), (''version'', JStr ''1.0.0''), (''description'', JStr ''d'')]"
    by simp
  have f: "field (object_assign (initial_final ''a.plugin.js'' []) [(''name'', JStr ''Foo''), (''version'', JStr ''1.0.0''), (''description'', JStr ''d'')]) ''filename''
       = JStr ''a.plugin.js''"
    by (simp add: field_def object_assign_def initial_final_def)
  show ?thesis
    using convertPlugin_queue_window[of
        "\<lparr>parsedMeta = Inr [(''name'', JStr ''Foo''), (''version'', JStr ''1.0.0''), (''description'', JStr ''d'')],
        evaluated = None, instantiated = Inr \<lparr>load_method = None, getName = None, getVersion = None, getDescription = None\<rparr>\<rparr>"
        "\<lparr>occupied = (\<lambda>n. False), innerHTML = (\<lambda>html. html)\<rparr>" "''a.plugin.js''" False "[]"
        "\<lparr>queuedPlugins = [], notices = [], error_log = [], trace = []\<rparr>"]
    unfolding f using p f by auto
qed

text \<open>
  When the assembly fails after the push (the evaluation or the instantiation throws, a
  legacy getter throws, or metadata is missing), \<open>convertPlugin\<close> has no step that removes
  the placeholder.
\<close>

lemma convertPlugin_failure_keeps_entry:
  fixes filename sourcePath :: string
  assumes "parsedMeta src = Inr pluginMeta"
    and "convertPlugin h src filename detect sourcePath st = (Inl e, st1)"
  shows "queuedPlugins st1 = queuedPlugins st @ [field (object_assign (initial_final filename sourcePath) pluginMeta) ''filename'']"
  using convert_after_parse[OF assms(1), of h filename detect sourcePath st] assms(2) by auto

section \<open>Properties of \<open>require\<close>\<close>

text \<open>
  Claim C7 says that \<open>require(name)\<close> throws for every name outside the allow-list. The
  code has no throwing branch: \<open>require("child_process")\<close> returns \<open>undefined\<close>.
\<close>

theorem require_unknown_name_counterexample:
  "\<not> (''child_process'' \<in> set allow_list)
   \<and> FakeRequireRedirect False ''child_process'' = Inr RequireUndefined
   \<and> FakeRequireRedirect True ''child_process'' = Inr RequireUndefined"
  by (simp add: allow_list_def FakeRequireRedirect_def own_property_def object_prototype_names_def)

text \<open>
  Claim C7, amended. \<open>require(name)\<close> never throws. A name that is neither a property of
  the shim table nor of \<open>Object.prototype\<close> resolves to \<open>undefined\<close>; \<open>fs\<close>, \<open>path\<close>,
  \<open>https\<close>, \<open>events\<close>, \<open>electron\<close>, \<open>crypto\<close> and \<open>process\<close> resolve to their shim objects, and
  \<open>request\<close> resolves to the request shim when the experimental request polyfills are
  enabled and to \<open>undefined\<close> otherwise.
\<close>

theorem require_resolves_table_or_undefined:
  "(\<forall>e. FakeRequireRedirect flag name \<noteq> Inl e)
   \<and> (name \<notin> set allow_list \<and> name \<noteq> ''request_'' \<and> name \<notin> set object_prototype_names
        \<longrightarrow> FakeRequireRedirect flag name = Inr RequireUndefined)
   \<and> FakeRequireRedirect flag ''fs'' = Inr (Module ShimFs)
   \<and> FakeRequireRedirect flag ''path'' = Inr (Module ShimPath)
   \<and> FakeRequireRedirect flag ''https'' = Inr (Module ShimHttps)
   \<and> FakeRequireRedirect flag ''events'' = Inr (Module ShimEvents)
   \<and> FakeRequireRedirect flag ''electron'' = Inr (Module ShimElectron)
   \<and> FakeRequireRedirect flag ''crypto'' = Inr (Module ShimCrypto)
   \<and> FakeRequireRedirect flag ''process'' = Inr (Module ShimProcess)
   \<and> FakeRequireRedirect flag ''request'' = Inr (if flag then Module ShimRequest else RequireUndefined)"
  by (simp add: FakeRequireRedirect_def own_property_def allow_list_def)

theorem require_resolves_table_or_undefined_witness:
  "''net'' \<notin> set allow_list \<and> ''net'' \<noteq> ''request_'' \<and> ''net'' \<notin> set object_prototype_names
   \<and> FakeRequireRedirect True ''net'' = Inr RequireUndefined
   \<and> FakeRequireRedirect True ''request'' = Inr (Module ShimRequest)
   \<and> FakeRequireRedirect False ''request'' = Inr RequireUndefined"
  using require_resolves_table_or_undefined[of True "''net''"]
    require_resolves_table_or_undefined[of False "''net''"]
  by (simp add: allow_list_def object_prototype_names_def)

section \<open>Properties of \<open>getMangled\<close>\<close>

lemma map_of_assign:
  "map_of (assign obj k v) k' = (if k = ''__proto__'' then map_of obj k' else ((map_of obj)(k \<mapsto> v)) k')"
  by (simp add: assign_def AList.update_conv')

lemma hasOwn_assign:
  "hasOwn (assign obj k v) k' \<longleftrightarrow> hasOwn obj k' \<or> (k' = k \<and> k \<noteq> ''__proto__'')"
  by (auto simp: hasOwn_def map_of_assign)

lemma values_assign: "snd ` set (assign obj k v) \<subseteq> insert v (snd ` set obj)"
proof -
  have "snd ` set (AList.update k v obj) \<subseteq> insert v (snd ` set obj)"
    by (induction obj) auto
  then show ?thesis by (auto simp: assign_def)
qed

lemma ensure_keys_has:
  "hasOwn (ensure_keys ms mapped) k \<longleftrightarrow> hasOwn mapped k \<or> (k \<in> fst ` set ms \<and> k \<noteq> ''__proto__'')"
proof (induction ms arbitrary: mapped)
  case Nil
  show ?case by simp
next
  case (Cons m ms)
  obtain key validator where m: "m = (key, validator)" by (cases m)
  show ?case
  proof (cases "hasOwn mapped key")
    case True
    then show ?thesis using Cons.IH[of mapped] m by auto
  next
    case False
    then show ?thesis
      using Cons.IH[of "assign mapped key JUndefined"] m by (auto simp: hasOwn_assign)
  qed
qed

lemma ensure_keys_keeps:
  "hasOwn mapped k \<Longrightarrow> map_of (ensure_keys ms mapped) k = map_of mapped k"
  by (induction ms arbitrary: mapped) (auto simp: hasOwn_assign map_of_assign hasOwn_def)

lemma ensure_keys_undefined:
  "\<not> hasOwn mapped k \<Longrightarrow> k \<in> fst ` set ms \<Longrightarrow> k \<noteq> ''__proto__'' \<Longrightarrow>
   map_of (ensure_keys ms mapped) k = Some JUndefined"
proof (induction ms arbitrary: mapped)
  case Nil
  then show ?case by simp
next
  case (Cons m ms)
  obtain key validator where m: "m = (key, validator)" by (cases m)
  show ?case
  proof (cases "key = k")
    case True
    have "hasOwn (assign mapped k JUndefined) k" using Cons.prems by (simp add: hasOwn_assign)
    then have "map_of (ensure_keys ms (assign mapped k JUndefined)) k = Some JUndefined"
      using ensure_keys_keeps Cons.prems(3) by (simp add: map_of_assign)
    then show ?thesis using True m Cons.prems(1) by simp
  next
    case False
    then have "k \<in> fst ` set ms" using Cons.prems(2) m by auto
    moreover have "\<not> hasOwn (if hasOwn mapped key then mapped else assign mapped key JUndefined) k"
      using Cons.prems(1) False by (simp add: hasOwn_assign)
    ultimately show ?thesis using Cons.IH Cons.prems(3) m by simp
  qed
qed

text \<open>Matching only ever stores accepted values of the writable module.\<close>

lemma match_value_sound:
  assumes "sound all w mapped" "set ms \<subseteq> set all" "v \<in> snd ` set w"
  shows "sound all w (match_value ms v mapped)"
  using assms
proof (induction ms arbitrary: mapped)
  case Nil
  then show ?case by simp
next
  case (Cons m ms)
  obtain key validator where m: "m = (key, validator)" by (cases m)
  have sub: "set ms \<subseteq> set all" and mem: "(key, validator) \<in> set all"
    using Cons.prems(2) m by auto
  show ?case
  proof (cases "\<not> hasOwn mapped key \<and> validator v = Some True")
    case False
    then show ?thesis using Cons.IH[OF Cons.prems(1) sub Cons.prems(3)] m by auto
  next
    case True
    have "sound all w (assign mapped key v)"
      using Cons.prems(1,3) mem True
      unfolding sound_def accepted_by_def map_of_assign by auto
    then show ?thesis using Cons.IH[OF _ sub Cons.prems(3)] True m by simp
  qed
qed

lemma match_module_sound:
  assumes "sound ms w mapped" "set rest \<subseteq> set w"
  shows "sound ms w (match_module ms rest mapped)"
  using assms
proof (induction rest arbitrary: mapped)
  case Nil
  then show ?case by simp
next
  case (Cons p rest)
  obtain searchKey v where p: "p = (searchKey, v)" by (cases p)
  have "v \<in> snd ` set w" using Cons.prems(2) p by force
  then have "sound ms w (match_value ms v mapped)"
    using match_value_sound[OF Cons.prems(1) subset_refl] by blast
  then show ?case using Cons.IH Cons.prems(2) p by simp
qed


lemma flatten_keeps:
  assumes "flatten m w0 = Inr w" "key \<notin> fst ` set m"
  shows "map_of w key = map_of w0 key"
  using assms
proof (induction m w0 rule: flatten.induct)
  case (1 writableModule)
  then show ?case by simp
next
  case (2 k g rest writableModule)
  then show ?case by (auto simp: map_of_assign)
next
  case (3 k r rest writableModule)
  then show ?case by (auto simp: map_of_assign split: option.splits)
qed

lemma flatten_lookup:
  assumes "flatten m w0 = Inr w" "distinct (map fst m)" "(key, p) \<in> set m" "key \<noteq> ''__proto__''"
  shows "map_of w key = Some (flattened_value p)"
  using assms
proof (induction m w0 rule: flatten.induct)
  case (1 writableModule)
  then show ?case by simp
next
  case (2 k g rest writableModule)
  show ?case
  proof (cases "(key, p) = (k, GetterOnly g)")
    case True
    have "key \<notin> fst ` set rest" using 2(3) True by auto
    then have "map_of w key = map_of (assign writableModule k (flattened_value (GetterOnly g))) key"
      using flatten_keeps 2(2) by simp
    then show ?thesis using True 2(5) by (simp add: map_of_assign)
  next
    case False
    then show ?thesis using 2 by auto
  qed
next
  case (3 k r rest writableModule)
  obtain v where r: "r = Some v" using 3(2) by (cases r) auto
  show ?case
  proof (cases "(key, p) = (k, Plain r)")
    case True
    have "key \<notin> fst ` set rest" using 3(3) True by auto
    then have "map_of w key = map_of (assign writableModule k v) key"
      using flatten_keeps 3(2) r by simp
    then show ?thesis using True 3(5) r by (simp add: map_of_assign)
  next
    case False
    then show ?thesis using 3 r by auto
  qed
qed

lemma flatten_succeeds:
  assumes "\<forall>key. (key, Plain None) \<notin> set m"
  shows "\<exists>w. flatten m w0 = Inr w"
  using assms
proof (induction m w0 rule: flatten.induct)
  case (1 writableModule)
  then show ?case by simp
next
  case (2 k g rest writableModule)
  then show ?case by simp
next
  case (3 k r rest writableModule)
  then obtain v where "r = Some v" by (cases r) auto
  then show ?case using 3 by simp
qed

lemma match_value_mono:
  "hasOwn mapped k \<Longrightarrow> hasOwn (match_value ms v mapped) k"
  by (induction ms arbitrary: mapped) (auto simp: hasOwn_assign)

lemma match_value_has:
  assumes "(key, validator) \<in> set ms" "key \<noteq> ''__proto__''" "validator v = Some True"
  shows "hasOwn (match_value ms v mapped) key"
  using assms(1)
proof (induction ms arbitrary: mapped)
  case Nil
  then show ?case by simp
next
  case (Cons m ms)
  obtain key' validator' where m: "m = (key', validator')" by (cases m)
  show ?case
  proof (cases "m = (key, validator)")
    case True
    then have here: "key' = key" "validator' = validator" using m by simp_all
    show ?thesis
    proof (cases "hasOwn mapped key")
      case True
      then show ?thesis by (rule match_value_mono)
    next
      case False
      have "hasOwn (assign mapped key v) key" using assms(2) by (simp add: hasOwn_assign)
      then have "hasOwn (match_value ms v (assign mapped key v)) key" by (rule match_value_mono)
      then show ?thesis using False m here assms(3) by simp
    qed
  next
    case False
    then have "(key, validator) \<in> set ms" using Cons.prems by auto
    then show ?thesis using Cons.IH m by simp
  qed
qed

lemma match_module_mono:
  "hasOwn mapped k \<Longrightarrow> hasOwn (match_module ms rest mapped) k"
  by (induction rest arbitrary: mapped) (auto simp: match_value_mono)

lemma match_module_has:
  assumes "(searchKey, v) \<in> set rest" "(key, validator) \<in> set ms" "key \<noteq> ''__proto__''"
    "validator v = Some True"
  shows "hasOwn (match_module ms rest mapped) key"
  using assms(1)
proof (induction rest arbitrary: mapped)
  case Nil
  then show ?case by simp
next
  case (Cons p rest)
  obtain k' v' where p: "p = (k', v')" by (cases p)
  show ?case
  proof (cases "p = (searchKey, v)")
    case True
    have "hasOwn (match_value ms v mapped) key" by (rule match_value_has[OF assms(2,3,4)])
    then have "hasOwn (match_module ms rest (match_value ms v mapped)) key"
      by (rule match_module_mono)
    then show ?thesis using True by simp
  next
    case False
    then have "(searchKey, v) \<in> set rest" using Cons.prems by auto
    then show ?thesis using Cons.IH p by simp
  qed
qed

lemma set_own_entries: "set (own_entries xs) = set xs"
  by (auto simp: own_entries_def)

lemma distinct_own_entries:
  assumes "distinct (map fst xs)"
  shows "distinct (map fst (own_entries xs))"
proof -
  let ?a = "filter (\<lambda>e. is_array_index (fst e)) xs"
  let ?b = "filter (\<lambda>e. \<not> is_array_index (fst e)) xs"
  have inj: "inj_on fst (set xs)" and d: "distinct xs"
    using assms by (simp_all add: distinct_map)
  have "distinct (own_entries xs)"
    using d by (auto simp: own_entries_def)
  moreover have "inj_on fst (set (own_entries xs))"
    using inj by (simp add: set_own_entries)
  ultimately show ?thesis by (simp add: distinct_map)
qed

lemma sound_empty: "sound ms w []"
  by (simp add: sound_def)

lemma mapped_key:
  fixes w :: js_object
  assumes "distinct (map fst ms)" "(key, validator) \<in> set ms" "key \<noteq> ''__proto__''"
  defines "result \<equiv> ensure_keys ms (match_module ms w [])"
  shows "hasOwn result key"
    and "(\<forall>v. \<not> accepted_by validator w v) \<longrightarrow> map_of result key = Some JUndefined"
    and "\<forall>v. map_of result key = Some v \<and> v \<noteq> JUndefined \<longrightarrow> accepted_by validator w v"
    and "(\<exists>v. accepted_by validator w v) \<longrightarrow>
           (\<exists>v. map_of result key = Some v \<and> accepted_by validator w v)"
proof -
  let ?mapped = "match_module ms w []"
  have snd: "sound ms w ?mapped"
    by (rule match_module_sound[OF sound_empty subset_refl])
  have only: "validator' = validator" if "(key, validator') \<in> set ms" for validator'
    using assms(1,2) that by (meson eq_key_imp_eq_value)
  have acc: "accepted_by validator w v" if "map_of ?mapped key = Some v" for v
    using snd that only unfolding sound_def by blast
  have inms: "key \<in> fst ` set ms" using assms(2) by force
  show "hasOwn result key"
    unfolding result_def using inms assms(3) by (simp add: ensure_keys_has)
  show "(\<forall>v. \<not> accepted_by validator w v) \<longrightarrow> map_of result key = Some JUndefined"
  proof
    assume none: "\<forall>v. \<not> accepted_by validator w v"
    then have "map_of ?mapped key = None" using acc by (cases "map_of ?mapped key") auto
    then have "\<not> hasOwn ?mapped key" by (simp add: hasOwn_def)
    then show "map_of result key = Some JUndefined"
      unfolding result_def using ensure_keys_undefined inms assms(3) by blast
  qed
  show "\<forall>v. map_of result key = Some v \<and> v \<noteq> JUndefined \<longrightarrow> accepted_by validator w v"
  proof (intro allI impI)
    fix v assume v: "map_of result key = Some v \<and> v \<noteq> JUndefined"
    show "accepted_by validator w v"
    proof (cases "hasOwn ?mapped key")
      case True
      then have "map_of result key = map_of ?mapped key"
        unfolding result_def by (rule ensure_keys_keeps)
      then show ?thesis using v acc by simp
    next
      case False
      then have "map_of result key = Some JUndefined"
        unfolding result_def using ensure_keys_undefined inms assms(3) by blast
      then show ?thesis using v by simp
    qed
  qed
  show "(\<exists>v. accepted_by validator w v) \<longrightarrow>
           (\<exists>v. map_of result key = Some v \<and> accepted_by validator w v)"
  proof
    assume "\<exists>v. accepted_by validator w v"
    then obtain searchKey v where "(searchKey, v) \<in> set w" "validator v = Some True"
      unfolding accepted_by_def by force
    then have has: "hasOwn ?mapped key"
      using match_module_has assms(2,3) by blast
    then obtain v' where v': "map_of ?mapped key = Some v'"
      unfolding hasOwn_def by blast
    have "map_of result key = map_of ?mapped key"
      unfolding result_def using has by (rule ensure_keys_keeps)
    then show "\<exists>v. map_of result key = Some v \<and> accepted_by validator w v"
      using v' acc by simp
  qed
qed


lemma accepted_by_entries:
  "accepted_by validator (own_entries w) v \<longleftrightarrow> accepted_by validator w v"
  by (simp add: accepted_by_def set_own_entries)

text \<open>
  Claim C8 says that every key of the mapping is an own property of the result also when
  no module matches the filter. In that case the code returns the empty object literal:
  the key \<open>a\<close> of the mapping is not a property of the result.
\<close>

theorem getMangled_not_found_counterexample:
  "getMangled None [(''a'', accept_all)] = Inr \<lparr>own_properties = [], getMangled_symbol = None\<rparr>
   \<and> \<not> hasOwn [] ''a''"
  by (simp add: getMangled_def hasOwn_def)

text \<open>
  Claim C8, amended. When no module matches the filter, \<open>getMangled\<close> returns the empty
  object, which has none of the keys as own properties. When a module is found and reading
  its properties does not throw, \<open>getMangled\<close> returns an object that has every key of the
  mapping (other than the accessor name \<open>__proto__\<close>) as an own property: \<open>undefined\<close> when
  no property of the module satisfied the key's validator, and otherwise a value that
  the validator accepted. The validators are matched against \<open>writableModule\<close>, in which
  every getter-only property of the module is a plain data property holding the getter's
  result (\<open>undefined\<close> if the getter threw), and which the result carries under the symbol
  \<open>betterdiscord.getMangled\<close>.
\<close>

theorem getMangled_found_keys_present:
  assumes "distinct (map fst ms)" "distinct (map fst module)"
  shows "getMangled None ms = Inr \<lparr>own_properties = [], getMangled_symbol = None\<rparr>
     \<and> ((\<forall>key. (key, Plain None) \<notin> set module) \<longrightarrow> (\<exists>res. getMangled (Some module) ms = Inr res))
     \<and> (\<forall>res. getMangled (Some module) ms = Inr res \<longrightarrow>
          (\<exists>w. flatten module [] = Inr w \<and> getMangled_symbol res = Some w
             \<and> (\<forall>key g. (key, GetterOnly g) \<in> set module \<and> key \<noteq> ''__proto__'' \<longrightarrow>
                    map_of w key = Some (flattened_value (GetterOnly g)))
             \<and> (\<forall>key validator. (key, validator) \<in> set ms \<and> key \<noteq> ''__proto__'' \<longrightarrow>
                    hasOwn (own_properties res) key
                  \<and> ((\<forall>v. \<not> accepted_by validator w v) \<longrightarrow>
                        map_of (own_properties res) key = Some JUndefined)
                  \<and> (\<forall>v. map_of (own_properties res) key = Some v \<and> v \<noteq> JUndefined \<longrightarrow>
                        accepted_by validator w v)
                  \<and> ((\<exists>v. accepted_by validator w v) \<longrightarrow>
                        (\<exists>v. map_of (own_properties res) key = Some v
                           \<and> accepted_by validator w v)))))"
proof (intro conjI allI impI)
  show "getMangled None ms = Inr \<lparr>own_properties = [], getMangled_symbol = None\<rparr>"
    by (simp add: getMangled_def)
next
  assume "\<forall>key. (key, Plain None) \<notin> set module"
  then obtain w where "flatten module [] = Inr w" using flatten_succeeds by blast
  then show "\<exists>res. getMangled (Some module) ms = Inr res" by (simp add: getMangled_def)
next
  fix res assume res: "getMangled (Some module) ms = Inr res"
  then obtain w where w: "flatten module [] = Inr w"
    and r: "res = \<lparr>own_properties = ensure_keys (own_entries ms)
                       (match_module (own_entries ms) (own_entries w) []),
                  getMangled_symbol = Some w\<rparr>"
    by (auto simp: getMangled_def split: sum.splits)
  have own: "own_properties res =
      ensure_keys (own_entries ms) (match_module (own_entries ms) (own_entries w) [])"
    and sym: "getMangled_symbol res = Some w"
    unfolding r by simp_all
  have g: "\<forall>key g. (key, GetterOnly g) \<in> set module \<and> key \<noteq> ''__proto__'' \<longrightarrow>
                    map_of w key = Some (flattened_value (GetterOnly g))"
    using flatten_lookup[OF w assms(2)] by blast
  have k: "hasOwn (own_properties res) key
         \<and> ((\<forall>v. \<not> accepted_by validator w v) \<longrightarrow>
               map_of (own_properties res) key = Some JUndefined)
         \<and> (\<forall>v. map_of (own_properties res) key = Some v \<and> v \<noteq> JUndefined \<longrightarrow>
               accepted_by validator w v)
         \<and> ((\<exists>v. accepted_by validator w v) \<longrightarrow>
               (\<exists>v. map_of (own_properties res) key = Some v \<and> accepted_by validator w v))"
    if "(key, validator) \<in> set ms \<and> key \<noteq> ''__proto__''" for key validator
  proof -
    have mem: "(key, validator) \<in> set (own_entries ms)" and np: "key \<noteq> ''__proto__''"
      using that by (simp_all add: set_own_entries)
    note mk = mapped_key[OF distinct_own_entries[OF assms(1)] mem np, of "own_entries w",
        folded own, unfolded accepted_by_entries]
    show ?thesis using mk by (intro conjI)
  qed
  show "\<exists>w. flatten module [] = Inr w \<and> getMangled_symbol res = Some w
             \<and> (\<forall>key g. (key, GetterOnly g) \<in> set module \<and> key \<noteq> ''__proto__'' \<longrightarrow>
                    map_of w key = Some (flattened_value (GetterOnly g)))
             \<and> (\<forall>key validator. (key, validator) \<in> set ms \<and> key \<noteq> ''__proto__'' \<longrightarrow>
                    hasOwn (own_properties res) key
                  \<and> ((\<forall>v. \<not> accepted_by validator w v) \<longrightarrow>
                        map_of (own_properties res) key = Some JUndefined)
                  \<and> (\<forall>v. map_of (own_properties res) key = Some v \<and> v \<noteq> JUndefined \<longrightarrow>
                        accepted_by validator w v)
                  \<and> ((\<exists>v. accepted_by validator w v) \<longrightarrow>
                        (\<exists>v. map_of (own_properties res) key = Some v
                           \<and> accepted_by validator w v)))"
    using w sym g k by (intro exI[of _ w] conjI allI impI) blast+
qed

theorem getMangled_found_keys_present_witness:
  "distinct (map fst [(''text'', is_string), (''any'', accept_all)])
   \<and> distinct (map fst [(''a'', GetterOnly (Some (JNum 1)))])
   \<and> getMangled None [(''text'', is_string), (''any'', accept_all)] =
         Inr \<lparr>own_properties = [], getMangled_symbol = None\<rparr>
   \<and> getMangled (Some [(''a'', GetterOnly (Some (JNum 1)))]) [(''text'', is_string), (''any'', accept_all)] =
         Inr \<lparr>own_properties = [(''any'', JNum 1), (''text'', JUndefined)],
              getMangled_symbol = Some [(''a'', JNum 1)]\<rparr>
   \<and> hasOwn [(''any'', JNum 1), (''text'', JUndefined)] ''text''
   \<and> accepted_by accept_all [(''a'', JNum 1)] (JNum 1)
   \<and> (\<exists>v. map_of [(''any'', JNum 1), (''text'', JUndefined)] ''any'' = Some v
          \<and> accepted_by accept_all [(''a'', JNum 1)] v)"
proof -
  let ?ms = "[(''text'', is_string), (''any'', accept_all)]"
  let ?m = "[(''a'', GetterOnly (Some (JNum 1)))]"
  let ?res = "\<lparr>own_properties = [(''any'', JNum 1), (''text'', JUndefined)],
              getMangled_symbol = Some [(''a'', JNum 1)]\<rparr>"
  have d1: "distinct (map fst ?ms)" by simp
  have d2: "distinct (map fst ?m)" by simp
  note t = getMangled_found_keys_present[OF d1 d2]
  have none: "getMangled None ?ms = Inr \<lparr>own_properties = [], getMangled_symbol = None\<rparr>"
    by (rule t[THEN conjunct1])
  have found: "getMangled (Some ?m) ?ms = Inr ?res"
    by (simp add: getMangled_def own_entries_def is_array_index_def is_digit_def assign_def
        hasOwn_def is_string_def accept_all_def)
  have acc: "accepted_by accept_all [(''a'', JNum 1)] (JNum 1)"
    by (simp add: accepted_by_def accept_all_def)
  from t[THEN conjunct2, THEN conjunct2, rule_format, OF found]
  obtain w where all: "flatten ?m [] = Inr w \<and> getMangled_symbol ?res = Some w
             \<and> (\<forall>key g. (key, GetterOnly g) \<in> set ?m \<and> key \<noteq> ''__proto__'' \<longrightarrow>
                    map_of w key = Some (flattened_value (GetterOnly g)))
             \<and> (\<forall>key validator. (key, validator) \<in> set ?ms \<and> key \<noteq> ''__proto__'' \<longrightarrow>
                    hasOwn (own_properties ?res) key
                  \<and> ((\<forall>v. \<not> accepted_by validator w v) \<longrightarrow>
                        map_of (own_properties ?res) key = Some JUndefined)
                  \<and> (\<forall>v. map_of (own_properties ?res) key = Some v \<and> v \<noteq> JUndefined \<longrightarrow>
                        accepted_by validator w v)
                  \<and> ((\<exists>v. accepted_by validator w v) \<longrightarrow>
                        (\<exists>v. map_of (own_properties ?res) key = Some v
                           \<and> accepted_by validator w v)))" by (rule exE)
  have w: "w = [(''a'', JNum 1)]" using all[THEN conjunct2, THEN conjunct1] by simp
  note k = all[THEN conjunct2, THEN conjunct2, THEN conjunct2, unfolded w, rule_format]
  have m1: "(''text'', is_string) \<in> set ?ms \<and> ''text'' \<noteq> ''__proto__''" by simp
  have m2: "(''any'', accept_all) \<in> set ?ms \<and> ''any'' \<noteq> ''__proto__''" by simp
  have own: "hasOwn [(''any'', JNum 1), (''text'', JUndefined)] ''text''"
    using k[OF m1, THEN conjunct1] by simp
  have ex: "\<exists>v. accepted_by accept_all [(''a'', JNum 1)] v"
    using acc by (rule exI)
  have any: "\<exists>v. map_of [(''any'', JNum 1), (''text'', JUndefined)] ''any'' = Some v
          \<and> accepted_by accept_all [(''a'', JNum 1)] v"
    using k[OF m2, THEN conjunct2, THEN conjunct2, THEN conjunct2, THEN mp, OF ex] by simp
  show ?thesis using d1 d2 none found own acc any by (intro conjI)
qed

text \<open>
  The order of \<open>Object.keys\<close> decides which accepted value is stored: the property \<open>1\<close>,
  enumerated after \<open>b\<close> by \<open>for ... in\<close> (an inherited property comes after the own
  ones), is the first key of \<open>writableModule\<close>.
\<close>

lemma getMangled_key_order_example:
  "getMangled (Some [(''b'', Plain (Some (JStr ''x''))), (''1'', Plain (Some (JStr ''y'')))])
      [(''text'', is_string)] =
         Inr \<lparr>own_properties = [(''text'', JStr ''y'')],
              getMangled_symbol = Some [(''b'', JStr ''x''), (''1'', JStr ''y'')]\<rparr>"
  by (simp add: getMangled_def own_entries_def is_array_index_def is_digit_def digits_value_def
      assign_def hasOwn_def is_string_def)

section \<open>Properties of the scoped API instances\<close>

lemma new_extends:
  assumes "new_BdApi label st = Inr (r, st')"
  shows "extends st st'"
  using assms
  unfolding new_BdApi_def extends_def
  by (auto simp: Let_def alloc_def labels_lookup_def split: if_splits prod.splits option.splits)

lemma new_wf:
  assumes "wf_state st" "new_BdApi label st = Inr (r, st')"
  shows "wf_state st'"
  using assms
  unfolding new_BdApi_def wf_state_def
  by (auto simp: Let_def alloc_def labels_lookup_def split: if_splits prod.splits option.splits)
     (metis less_Suc_eq less_SucI)+

lemma extends_refl: "extends s s"
  by (simp add: extends_def)

lemma extends_trans: "extends s t \<Longrightarrow> extends t u \<Longrightarrow> extends s u"
  unfolding extends_def by (metis (no_types, lifting) le_trans less_le_trans)

lemma after_new_extends: "extends st (after_new st label)"
  by (auto simp: after_new_def extends_refl new_extends split: sum.splits)

lemma after_new_wf: "wf_state st \<Longrightarrow> wf_state (after_new st label)"
  by (auto simp: after_new_def new_wf split: sum.splits)

lemma constructions_extends: "extends st (constructions labels st)"
  unfolding constructions_def
proof (induction labels arbitrary: st)
  case Nil
  show ?case by (simp add: extends_refl)
next
  case (Cons l ls)
  show ?case using extends_trans[OF after_new_extends Cons.IH] by simp
qed

lemma constructions_wf: "wf_state st \<Longrightarrow> wf_state (constructions labels st)"
  unfolding constructions_def
  by (induction labels arbitrary: st) (simp_all add: after_new_wf)

lemma createGlobalBdApi_wf: "wf_state (createGlobalBdApi st0)"
  by (simp add: createGlobalBdApi_def new_BdApi_def wf_state_def alloc_def Let_def)

lemma new_succeeds:
  assumes "wf_state st"
  shows "\<exists>r st'. new_BdApi label st = Inr (r, st')"
  using assms unfolding new_BdApi_def wf_state_def
  by (auto simp: Let_def alloc_def split: prod.splits)

lemma new_unlabelled:
  assumes "wf_state st" "\<not> truthy_string label" "new_BdApi label st = Inr (r, st')"
  shows "r = GlobalClass"
  using assms unfolding new_BdApi_def wf_state_def
  by (auto simp: Let_def alloc_def split: prod.splits)

lemma new_labelled:
  assumes "wf_state st" "truthy_string label" "new_BdApi label st = Inr (r, st')"
  shows "labels_lookup st' (the label) = r \<and> r \<noteq> RefUndefined
         \<and> (\<forall>a. r = Addr a \<longrightarrow> a < next_addr st') \<and> r \<noteq> GlobalClass"
  using assms unfolding new_BdApi_def wf_state_def
  by (auto simp: Let_def alloc_def labels_lookup_def less_Suc_eq
      split: prod.splits if_splits option.splits)
     (metis jsref.inject(1))+

lemma new_existing:
  assumes "wf_state st" "truthy_string label" "labels_lookup st (the label) = r" "r \<noteq> RefUndefined"
  shows "\<exists>st'. new_BdApi label st = Inr (r, st')"
  using assms unfolding new_BdApi_def wf_state_def
  by (auto simp: Let_def alloc_def labels_lookup_def split: prod.splits if_splits option.splits)

lemma field_stable:
  assumes "extends s t" "\<forall>a. r = Addr a \<longrightarrow> a < next_addr s"
  shows "instance_field sel g t r = instance_field sel g s r"
  using assms unfolding extends_def instance_field_def
  by (cases r) auto

text \<open>
  Claim C9. Two constructions of the scoped API instance with equal labels return the same
  object, whatever constructions happen before and between them, so the \<open>Data\<close>, \<open>DOM\<close>
  and \<open>Patcher\<close> facades read from the result are the same objects at both points; a
  construction without a label (or with the empty label) returns the shared global
  object. The states are those reached from \<open>createGlobalBdApi\<close> by constructions.
\<close>

theorem scoped_instance_singleton:
  "\<exists>r s2 s4.
     new_BdApi label (constructions before (createGlobalBdApi st0)) = Inr (r, s2)
   \<and> new_BdApi label (constructions between s2) = Inr (r, s4)
   \<and> Data s4 r = Data s2 r \<and> DOM s4 r = DOM s2 r \<and> Patcher s4 r = Patcher s2 r
   \<and> (\<not> truthy_string label \<longrightarrow> r = GlobalClass)"
proof -
  let ?s1 = "constructions before (createGlobalBdApi st0)"
  have wf1: "wf_state ?s1" by (simp add: constructions_wf createGlobalBdApi_wf)
  obtain r s2 where first: "new_BdApi label ?s1 = Inr (r, s2)"
    using new_succeeds[OF wf1] by blast
  have wf2: "wf_state s2" by (rule new_wf[OF wf1 first])
  let ?s3 = "constructions between s2"
  have wf3: "wf_state ?s3" by (simp add: constructions_wf wf2)
  have ext23: "extends s2 ?s3" by (rule constructions_extends)
  show ?thesis
  proof (cases "truthy_string label")
    case False
    obtain r' s4 where second: "new_BdApi label ?s3 = Inr (r', s4)"
      using new_succeeds[OF wf3] by blast
    have r: "r = GlobalClass" and r': "r' = GlobalClass"
      using new_unlabelled[OF wf1 False first] new_unlabelled[OF wf3 False second] by simp_all
    have "instance_field sel g s4 r = instance_field sel g s2 r" for sel g
      by (simp add: r instance_field_def)
    then show ?thesis
      using first second r r' by (auto simp: Data_def DOM_def Patcher_def)
  next
    case True
    have l: "labels_lookup s2 (the label) = r" "r \<noteq> RefUndefined"
      "\<forall>a. r = Addr a \<longrightarrow> a < next_addr s2"
      using new_labelled[OF wf1 True first] by simp_all
    have "labels_lookup ?s3 (the label) = r"
      using ext23 l(1,2) unfolding extends_def by metis
    then obtain s4 where second: "new_BdApi label ?s3 = Inr (r, s4)"
      using new_existing[OF wf3 True _ l(2)] by blast
    have "extends s2 s4"
      by (rule extends_trans[OF ext23 new_extends[OF second]])
    then have "instance_field sel g s4 r = instance_field sel g s2 r" for sel g
      using field_stable l(3) by blast
    then show ?thesis
      using first second True by (auto simp: Data_def DOM_def Patcher_def)
  qed
qed


theorem scoped_instance_singleton_witness:
  "(\<exists>r s2 s4.
     new_BdApi (Some ''P'') (constructions [Some ''Q'']
        (createGlobalBdApi \<lparr>next_addr = 0, heap = Map.empty, global_installed = False,
                             labelsOfInstancedAPI = Map.empty\<rparr>)) = Inr (r, s2)
   \<and> new_BdApi (Some ''P'') (constructions [None, Some ''R''] s2) = Inr (r, s4)
   \<and> Data s4 r = Data s2 r \<and> DOM s4 r = DOM s2 r \<and> Patcher s4 r = Patcher s2 r)
   \<and> truthy_string (Some ''P'')
   \<and> (case new_BdApi (Some ''P'') (constructions [Some ''Q'']
        (createGlobalBdApi \<lparr>next_addr = 0, heap = Map.empty, global_installed = False,
                             labelsOfInstancedAPI = Map.empty\<rparr>)) of
         Inr (r, s) \<Rightarrow> (r, Data s r) | Inl e \<Rightarrow> (RefUndefined, RefUndefined)) = (Addr 5, Addr 7)"
proof -
  have "(case new_BdApi (Some ''P'') (constructions [Some ''Q'']
        (createGlobalBdApi \<lparr>next_addr = 0, heap = Map.empty, global_installed = False,
                             labelsOfInstancedAPI = Map.empty\<rparr>)) of
         Inr (r, s) \<Rightarrow> (r, Data s r) | Inl e \<Rightarrow> (RefUndefined, RefUndefined)) = (Addr 5, Addr 7)"
    by code_simp
  then show ?thesis
    using scoped_instance_singleton[of "Some ''P''" "[Some ''Q'']"
        "\<lparr>next_addr = 0, heap = Map.empty, global_installed = False,
           labelsOfInstancedAPI = Map.empty\<rparr>" "[None, Some ''R'']"]
    by auto
qed

section \<open>Properties of \<open>DataHolder\<close>\<close>

text \<open>
  Claim C10. \<open>DataHolder.save(label, key, data)\<close> leaves the per-label cache and the files
  unchanged (and makes no file-system call) whenever label, key or data is falsy; in
  particular saving \<open>false\<close>, \<open>0\<close>, \<open>null\<close> or the empty string does nothing; and
  \<open>DataHolder.load(label, key)\<close> returns \<open>undefined\<close> without a file-system call when label
  or key is falsy.
\<close>

theorem save_load_falsy_noop:
  "(\<not> truthy label \<or> \<not> truthy key \<or> \<not> truthy data \<longrightarrow> save h label key data st = Inr st)
   \<and> save h label key (JBool False) st = Inr st
   \<and> save h label key (JNum 0) st = Inr st
   \<and> save h label key JNull st = Inr st
   \<and> save h label key (JStr []) st = Inr st
   \<and> (\<not> truthy label \<or> \<not> truthy key \<longrightarrow> load h label key st = Inr (JUndefined, st))"
  by (auto simp: save_def load_def)

theorem save_load_falsy_noop_witness:
  "\<not> truthy (JStr []) \<and> \<not> truthy (JNum 0)
   \<and> save \<lparr>json_parse = (\<lambda>text. None), json_stringify = (\<lambda>obj. ''{}''), empty_object = (),
            get_property = (\<lambda>obj k. Some JUndefined), set_property = (\<lambda>obj k v. Some ()),
            property_key = (\<lambda>v. ''k''), of_value = (\<lambda>v. ())\<rparr>
        (JStr ''Label'') (JStr ''count'') (JNum 0)
        \<lparr>pluginData = Map.empty, inherited = Map.empty, files = Map.empty, fs_calls = [], debug_log = []\<rparr>
      = Inr \<lparr>pluginData = Map.empty, inherited = Map.empty, files = Map.empty, fs_calls = [], debug_log = []\<rparr>
   \<and> load \<lparr>json_parse = (\<lambda>text. None), json_stringify = (\<lambda>obj. ''{}''), empty_object = (),
            get_property = (\<lambda>obj k. Some JUndefined), set_property = (\<lambda>obj k v. Some ()),
            property_key = (\<lambda>v. ''k''), of_value = (\<lambda>v. ())\<rparr>
        (JStr []) (JStr ''count'')
        \<lparr>pluginData = Map.empty, inherited = Map.empty, files = Map.empty, fs_calls = [], debug_log = []\<rparr>
      = Inr (JUndefined, \<lparr>pluginData = Map.empty, inherited = Map.empty, files = Map.empty, fs_calls = [], debug_log = []\<rparr>)"
  using save_load_falsy_noop[of "JStr ''Label''" "JStr ''count''" "JNum 0"
      "\<lparr>json_parse = (\<lambda>text. None), json_stringify = (\<lambda>obj. ''{}''), empty_object = (),
            get_property = (\<lambda>obj k. Some JUndefined), set_property = (\<lambda>obj k v. Some ()),
            property_key = (\<lambda>v. ''k''), of_value = (\<lambda>v. ())\<rparr>"
      "\<lparr>pluginData = Map.empty, inherited = Map.empty, files = Map.empty, fs_calls = [], debug_log = []\<rparr>"]
    save_load_falsy_noop[of "JStr []" "JStr ''count''" "JNum 0"
      "\<lparr>json_parse = (\<lambda>text. None), json_stringify = (\<lambda>obj. ''{}''), empty_object = (),
            get_property = (\<lambda>obj k. Some JUndefined), set_property = (\<lambda>obj k v. Some ()),
            property_key = (\<lambda>v. ''k''), of_value = (\<lambda>v. ())\<rparr>"
      "\<lparr>pluginData = Map.empty, inherited = Map.empty, files = Map.empty, fs_calls = [], debug_log = []\<rparr>"]
  by simp

text \<open>With truthy arguments \<open>save\<close> does write: the guard is what makes the cases above silent.\<close>

lemma save_truthy_writes:
  "save \<lparr>json_parse = (\<lambda>text. None), json_stringify = (\<lambda>obj. ''{}''), empty_object = (),
            get_property = (\<lambda>obj k. Some JUndefined), set_property = (\<lambda>obj k v. Some ()),
            property_key = (\<lambda>v. ''k''), of_value = (\<lambda>v. ())\<rparr>
        (JStr ''Label'') (JStr ''count'') (JNum 1)
        \<lparr>pluginData = Map.empty, inherited = Map.empty, files = Map.empty, fs_calls = [], debug_log = []\<rparr>
   = Inr \<lparr>pluginData = [''k'' \<mapsto> ()], inherited = Map.empty, files = [''/BD/plugins/k.config.json'' \<mapsto> ''{}''],
          fs_calls = [ExistsSync ''/BD/plugins/k.config.json'',
                      WriteFileSync ''/BD/plugins/k.config.json'' ''{}''],
          debug_log = []\<rparr>"
  by (simp add: save_def latestDataCheck_def cached_def write_through_def config_path_def
      plugins_folder_def Let_def)

text \<open>
  A label that names a member of \<open>Object.prototype\<close> counts as cached: nothing is looked
  up on disk and the member itself is read.
\<close>

lemma load_inherited_label:
  "load \<lparr>json_parse = (\<lambda>text. None), json_stringify = (\<lambda>obj. ''{}''), empty_object = (),
            get_property = (\<lambda>obj k. Some JUndefined), set_property = (\<lambda>obj k v. Some ()),
            property_key = (\<lambda>v. ''toString''), of_value = (\<lambda>v. ())\<rparr>
        (JStr ''toString'') (JStr ''count'')
        \<lparr>pluginData = Map.empty, inherited = [''toString'' \<mapsto> ()], files = Map.empty,
          fs_calls = [], debug_log = []\<rparr>
   = Inr (JUndefined,
          \<lparr>pluginData = Map.empty, inherited = [''toString'' \<mapsto> ()], files = Map.empty,
            fs_calls = [], debug_log = []\<rparr>)"
  by (simp add: load_def latestDataCheck_def cached_def Let_def)

section \<open>Enabling a plugin: intent, reload decision, fallback\<close>

text \<open>
  The effect list is the order of the calls. \<open>enable\<close> records the intent, decides on the
  reload by the condition that \<open>signature_stale\<close> spells out, and either starts the
  registered instance or runs the soft reload, with the fallback when that throws.
\<close>

lemma record_intent_frame:
  "plugins (record_intent n st) = plugins st" "objects (record_intent n st) = objects st"
  "disk (record_intent n st) = disk st" "fs_present (record_intent n st) = fs_present st"
  "GeneratedPlugins (record_intent n st) = GeneratedPlugins st"
  "effects (record_intent n st) = effects st @ [SetEnabled n True, SetStatus n True]"
  "enabled (record_intent n st) n = Some True"
  by (simp_all add: record_intent_def log_effect_def)

lemma getFileSig_frame:
  "fs_present s = fs_present t \<Longrightarrow> disk s = disk t \<Longrightarrow> getFileSig s p = getFileSig t p"
  by (simp add: getFileSig_def)

lemma reload_wanted_stale:
  "reload_wanted (record_intent n st) p \<longleftrightarrow> signature_stale st p"
proof -
  have g: "getFileSig (record_intent n st) q = getFileSig st q" for q
    by (rule getFileSig_frame) (simp_all add: record_intent_frame)
  have nf: "getFileSig st c \<noteq> NoSig \<Longrightarrow> p_filename c \<noteq> []" for c
    by (auto simp: getFileSig_def)
  show ?thesis
    unfolding reload_wanted_def signature_stale_def stamped_sig_def disk_sig_def current_instance_def
      Let_def record_intent_frame g falsy_sig_def
    using nf by (auto split: option.splits)
qed

lemma stale_fs: "signature_stale st p \<Longrightarrow> fs_present st"
  by (auto simp: signature_stale_def disk_sig_def getFileSig_def split: if_splits)

lemma enable_unfold:
  assumes "resolvePluginByAny st idOrFile = Some (r, p)"
  shows "enable idOrFile st =
     (if signature_stale st p then
        (case softReloadBDPlugin p (record_intent (p_name p) st) of
           (None, st2) \<Rightarrow> st2
         | (Some e, st2) \<Rightarrow> start_existing (p_name p) (log_effect soft_reload_warning st2))
      else start_existing (p_name p) (record_intent (p_name p) st))"
  unfolding enable_def Let_def soft_reload_warning_def reload_wanted_stale using assms by simp

lemma stopPlugin_frame:
  "stopPlugin t s = Inr s1 \<Longrightarrow>
     effects s1 = effects s @ [StopPlugin t] \<and> disk s1 = disk s \<and> fs_present s1 = fs_present s
     \<and> plugins s1 = plugins s \<and> GeneratedPlugins s1 = GeneratedPlugins s"
  by (auto simp: stopPlugin_def log_effect_def Let_def split: option.splits if_splits)

lemma safeStopPlugin_frame:
  "effects (safeStopPlugin n s) = effects s @ [StopPlugin (plugins s n), UnpatchAll n, RemoveStyle n]"
  "disk (safeStopPlugin n s) = disk s" "fs_present (safeStopPlugin n s) = fs_present s"
  "plugins (safeStopPlugin n s) = plugins s"
  "GeneratedPlugins (safeStopPlugin n s) = GeneratedPlugins s"
  by (auto simp: safeStopPlugin_def log_effect_def Let_def dest: stopPlugin_frame split: sum.splits)

lemma log_effect_frame:
  "effects (log_effect e s) = effects s @ [e]" "disk (log_effect e s) = disk s"
  "plugins (log_effect e s) = plugins s" "GeneratedPlugins (log_effect e s) = GeneratedPlugins s"
  by (simp_all add: log_effect_def)

lemma push_queued_frame:
  "effects (push_queued q s) = effects s" "plugins (push_queued q s) = plugins s"
  "GeneratedPlugins (push_queued q s) = GeneratedPlugins s"
  by (simp_all add: push_queued_def)

lemma convert_file_throws:
  assumes "\<forall>a. assembles_to f \<noteq> Assembles a"
  shows "\<exists>e s1. convert_file f s = (Inl e, s1) \<and> effects s1 = effects s
     \<and> plugins s1 = plugins s \<and> GeneratedPlugins s1 = GeneratedPlugins s"
  using assms by (cases "assembles_to f") (simp_all add: convert_file_def push_queued_frame)

lemma start_nothing:
  "plugins s n = None \<Longrightarrow> start_existing n s = log_effect (StartPlugin None) s"
  by (simp add: start_existing_def startPlugin_def Let_def)

lemma softReload_throws:
  assumes "fs_present s" "p_filename p \<noteq> []" "\<not> assembles s p"
  shows "\<exists>e s1. softReloadBDPlugin p s = (Some e, s1)
     \<and> effects s1 = effects s @ [SetStatus (p_name p) (isPluginEnabled s (p_name p)),
          StopPlugin (plugins s (p_name p)), UnpatchAll (p_name p), RemoveStyle (p_name p),
          Deregister (p_name p), ReadFile (full_path (p_filename p))]
          @ (if disk s (full_path (p_filename p)) = None then []
             else [ConvertPlugin (p_filename p)])
     \<and> plugins s1 (p_name p) = None
     \<and> GeneratedPlugins s1 =
         (case plugins s (p_name p) of
            None \<Rightarrow> GeneratedPlugins s
          | Some inst \<Rightarrow> remove1 inst (GeneratedPlugins s))"
proof -
  let ?n = "p_name p"
  let ?path = "full_path (p_filename p)"
  define s1 where "s1 = log_effect (SetStatus ?n (isPluginEnabled s ?n))
                     (s\<lparr>pluginsStatus := (pluginsStatus s)(?n \<mapsto> isPluginEnabled s ?n)\<rparr>)"
  define s2 where "s2 = safeStopPlugin ?n s1"
  define s3 where "s3 = log_effect (Deregister ?n)
                     (s2\<lparr>GeneratedPlugins :=
                            (case plugins s2 ?n of
                               None \<Rightarrow> GeneratedPlugins s2
                             | Some inst \<Rightarrow> remove1 inst (GeneratedPlugins s2)),
                          plugins := (plugins s2)(?n := None)\<rparr>)"
  define s4 where "s4 = log_effect (ReadFile ?path) s3"
  define s5 where "s5 = log_effect (ConvertPlugin (p_filename p)) s4"
  have f1: "effects s1 = effects s @ [SetStatus ?n (isPluginEnabled s ?n)]"
    "disk s1 = disk s" "plugins s1 = plugins s" "GeneratedPlugins s1 = GeneratedPlugins s"
    by (simp_all add: s1_def log_effect_def)
  have f2: "effects s2 = effects s1 @ [StopPlugin (plugins s1 ?n), UnpatchAll ?n, RemoveStyle ?n]"
    "disk s2 = disk s1" "plugins s2 = plugins s1" "GeneratedPlugins s2 = GeneratedPlugins s1"
    unfolding s2_def by (simp_all add: safeStopPlugin_frame)
  have f3: "effects s3 = effects s2 @ [Deregister ?n]" "disk s3 = disk s2"
    "plugins s3 ?n = None"
    "GeneratedPlugins s3 = (case plugins s2 ?n of None \<Rightarrow> GeneratedPlugins s2
                             | Some inst \<Rightarrow> remove1 inst (GeneratedPlugins s2))"
    by (simp_all add: s3_def log_effect_def)
  have f4: "effects s4 = effects s3 @ [ReadFile ?path]" "disk s4 = disk s3"
    "plugins s4 = plugins s3" "GeneratedPlugins s4 = GeneratedPlugins s3"
    by (simp_all add: s4_def log_effect_def)
  have e4: "effects s4 = effects s @ [SetStatus ?n (isPluginEnabled s ?n),
          StopPlugin (plugins s ?n), UnpatchAll ?n, RemoveStyle ?n, Deregister ?n, ReadFile ?path]"
    and d4: "disk s4 = disk s" and p4: "plugins s4 ?n = None"
    and g4: "GeneratedPlugins s4 = (case plugins s ?n of None \<Rightarrow> GeneratedPlugins s
                             | Some inst \<Rightarrow> remove1 inst (GeneratedPlugins s))"
    unfolding f4 f3 f2 f1 by simp_all
  have f5: "effects s5 = effects s4 @ [ConvertPlugin (p_filename p)]"
    "plugins s5 = plugins s4" "GeneratedPlugins s5 = GeneratedPlugins s4"
    by (simp_all add: s5_def log_effect_def)
  have c: "\<not> (\<not> fs_present s \<or> p_filename p = [])" using assms(1,2) by simp
  have unfold: "softReloadBDPlugin p s =
      (case disk s4 ?path of
         None \<Rightarrow> (Some HostError, s4)
       | Some f \<Rightarrow>
           (case convert_file f s5 of
              (Inl e, st5) \<Rightarrow> (Some e, st5)
            | (Inr assembled, st5) \<Rightarrow>
                (case addCustomPlugin assembled st5 of
                   (Some e, st6) \<Rightarrow> (Some e, st6)
                 | (None, st6) \<Rightarrow>
                     (None,
                      if p_version p \<noteq> []
                         \<and> (case objects st5 assembled of None \<Rightarrow> [] | Some a \<Rightarrow> p_version a) \<noteq> []
                         \<and> p_version p \<noteq> (case objects st5 assembled of None \<Rightarrow> [] | Some a \<Rightarrow> p_version a)
                      then log_effect (QueueChangelog ?n (p_version p)
                             (case objects st5 assembled of None \<Rightarrow> [] | Some a \<Rightarrow> p_version a))
                             (stampFileSigOnCurrent ?n st6)
                      else stampFileSigOnCurrent ?n st6))))"
    unfolding s5_def s4_def s3_def s2_def s1_def softReloadBDPlugin_def Let_def if_not_P[OF c]
    by (rule refl)
  show ?thesis
  proof (cases "disk s ?path")
    case None
    then have "softReloadBDPlugin p s = (Some HostError, s4)" using unfold d4 by simp
    then show ?thesis using e4 p4 g4 None by simp
  next
    case (Some f)
    then have "\<forall>a. assembles_to f \<noteq> Assembles a"
      using assms(3) by (auto simp: assembles_def)
    then obtain e s6 where cv: "convert_file f s5 = (Inl e, s6)" "effects s6 = effects s5"
      "plugins s6 = plugins s5" "GeneratedPlugins s6 = GeneratedPlugins s5"
      using convert_file_throws by blast
    have "softReloadBDPlugin p s = (Some e, s6)" using unfold d4 Some cv(1) by simp
    then show ?thesis using cv(2,3,4) f5 e4 p4 g4 Some by simp
  qed
qed


text \<open>
  Claim C1: when the soft reload throws, \<open>enable\<close> falls back to starting the existing
  instance, so the plugin is never left un-started because of a reload failure. The code
  says the same in its comment ("No file change (or reload failed): just start the
  existing instance") and in its warning, but \<open>softReloadBDPlugin\<close> has deleted
  \<open>Vencord.Plugins.plugins[p.name]\<close> before it reads and converts the file. Whenever the
  reload is attempted on a file that is missing or does not assemble, the fallback
  therefore passes \<open>undefined\<close> to \<open>startPlugin\<close>: after the intent is recorded and the old
  instance is stopped and deregistered, the only start is the one of \<open>undefined\<close>, and the
  plugin is registered no more.
\<close>

theorem enable_failed_reload_starts_nothing:
  assumes "resolvePluginByAny st idOrFile = Some (r, p)"
    and "signature_stale st p" and "p_filename p \<noteq> []" and "\<not> assembles st p"
  shows "effects (enable idOrFile st) =
         effects st @ [SetEnabled (p_name p) True, SetStatus (p_name p) True]
           @ soft_reload_steps st p
           @ (if disk st (full_path (p_filename p)) = None then []
              else [ConvertPlugin (p_filename p)])
           @ [soft_reload_warning, StartPlugin None]
     \<and> plugins (enable idOrFile st) (p_name p) = None
     \<and> GeneratedPlugins (enable idOrFile st) =
         (case plugins st (p_name p) of
            None \<Rightarrow> GeneratedPlugins st
          | Some inst \<Rightarrow> remove1 inst (GeneratedPlugins st))"
proof -
  let ?n = "p_name p"
  let ?s1 = "record_intent ?n st"
  have fs: "fs_present ?s1" using stale_fs[OF assms(2)] by (simp add: record_intent_frame)
  have na: "\<not> assembles ?s1 p" using assms(4) by (simp add: assembles_def record_intent_frame)
  have en: "isPluginEnabled ?s1 ?n" by (simp add: isPluginEnabled_def record_intent_frame)
  obtain e s2 where sr: "softReloadBDPlugin p ?s1 = (Some e, s2)"
    and eff: "effects s2 = effects ?s1 @ [SetStatus ?n (isPluginEnabled ?s1 ?n),
          StopPlugin (plugins ?s1 ?n), UnpatchAll ?n, RemoveStyle ?n,
          Deregister ?n, ReadFile (full_path (p_filename p))]
          @ (if disk ?s1 (full_path (p_filename p)) = None then []
             else [ConvertPlugin (p_filename p)])"
    and gone: "plugins s2 ?n = None"
    and gen: "GeneratedPlugins s2 =
         (case plugins ?s1 ?n of
            None \<Rightarrow> GeneratedPlugins ?s1
          | Some inst \<Rightarrow> remove1 inst (GeneratedPlugins ?s1))"
    using softReload_throws[OF fs assms(3) na] by blast
  have "enable idOrFile st = start_existing ?n (log_effect soft_reload_warning s2)"
    using assms(1,2) sr by (simp add: enable_unfold)
  also have "\<dots> = log_effect (StartPlugin None) (log_effect soft_reload_warning s2)"
    using gone by (simp add: start_nothing log_effect_frame)
  finally have en2: "enable idOrFile st =
      log_effect (StartPlugin None) (log_effect soft_reload_warning s2)" .
  have e2: "effects (enable idOrFile st) =
      effects st @ [SetEnabled ?n True, SetStatus ?n True]
        @ soft_reload_steps st p
        @ (if disk st (full_path (p_filename p)) = None then []
           else [ConvertPlugin (p_filename p)])
        @ [soft_reload_warning, StartPlugin None]"
    unfolding en2 log_effect_frame eff using en
    by (simp add: soft_reload_steps_def record_intent_frame)
  have p2: "plugins (enable idOrFile st) ?n = None"
    unfolding en2 log_effect_frame by (rule gone)
  have g2: "GeneratedPlugins (enable idOrFile st) =
         (case plugins st ?n of
            None \<Rightarrow> GeneratedPlugins st
          | Some inst \<Rightarrow> remove1 inst (GeneratedPlugins st))"
    unfolding en2 log_effect_frame gen record_intent_frame by (rule refl)
  show ?thesis using e2 p2 g2 by (intro conjI)
qed

theorem enable_failed_reload_starts_nothing_witness:
  "resolvePluginByAny
      (sample_state (sample_plugin ''1.0.0'' (Sig 5) False)
         (sample_file (ThrowsAfterQueue (Error ''Incomplete plugin'') (sample_plugin [] NoSig False))))
      ''P''
     = Some (0, sample_plugin ''1.0.0'' (Sig 5) False)
   \<and> signature_stale
      (sample_state (sample_plugin ''1.0.0'' (Sig 5) False)
         (sample_file (ThrowsAfterQueue (Error ''Incomplete plugin'') (sample_plugin [] NoSig False))))
      (sample_plugin ''1.0.0'' (Sig 5) False)
   \<and> \<not> assembles
      (sample_state (sample_plugin ''1.0.0'' (Sig 5) False)
         (sample_file (ThrowsAfterQueue (Error ''Incomplete plugin'') (sample_plugin [] NoSig False))))
      (sample_plugin ''1.0.0'' (Sig 5) False)
   \<and> effects (enable ''P''
      (sample_state (sample_plugin ''1.0.0'' (Sig 5) False)
         (sample_file (ThrowsAfterQueue (Error ''Incomplete plugin'') (sample_plugin [] NoSig False)))))
       = [SetEnabled ''P'' True, SetStatus ''P'' True, SetStatus ''P'' True, StopPlugin (Some 0),
          UnpatchAll ''P'', RemoveStyle ''P'', Deregister ''P'', ReadFile ''/BD/plugins/p.plugin.js'',
          ConvertPlugin ''p.plugin.js'',
          Warn ''[BdCompat] enable(): soft reload failed, starting old instance'',
          StartPlugin None]
   \<and> plugins (enable ''P''
      (sample_state (sample_plugin ''1.0.0'' (Sig 5) False)
         (sample_file (ThrowsAfterQueue (Error ''Incomplete plugin'') (sample_plugin [] NoSig False)))))
      ''P'' = None
   \<and> GeneratedPlugins (enable ''P''
      (sample_state (sample_plugin ''1.0.0'' (Sig 5) False)
         (sample_file (ThrowsAfterQueue (Error ''Incomplete plugin'') (sample_plugin [] NoSig False)))))
     = []"
proof -
  let ?S = "sample_state (sample_plugin ''1.0.0'' (Sig 5) False)
         (sample_file (ThrowsAfterQueue (Error ''Incomplete plugin'') (sample_plugin [] NoSig False)))"
  let ?p = "sample_plugin ''1.0.0'' (Sig 5) False"
  have r: "resolvePluginByAny ?S ''P'' = Some (0, ?p)"
    by (simp add: resolvePluginByAny_def sample_state_def sample_plugin_def matches_any_def
        List.map_filter_def)
  have s: "signature_stale ?S ?p"
    by (simp add: signature_stale_def disk_sig_def getFileSig_def stamped_sig_def
        current_instance_def sample_state_def sample_plugin_def sample_file_def full_path_def
        plugins_folder_def to_int32_def)
  have n: "p_filename ?p \<noteq> []" by (simp add: sample_plugin_def)
  have a: "\<not> assembles ?S ?p"
    by (simp add: assembles_def sample_state_def sample_plugin_def sample_file_def full_path_def
        plugins_folder_def)
  have v: "effects ?S = []" "p_name ?p = ''P''" "plugins ?S ''P'' = Some 0"
    "GeneratedPlugins ?S = [0]"
    "(if disk ?S (full_path (p_filename ?p)) = None then []
      else [ConvertPlugin (p_filename ?p)]) = [ConvertPlugin ''p.plugin.js'']"
    "soft_reload_steps ?S ?p = [SetStatus ''P'' True, StopPlugin (Some 0),
          UnpatchAll ''P'', RemoveStyle ''P'', Deregister ''P'', ReadFile ''/BD/plugins/p.plugin.js'']"
    by (simp_all add: sample_state_def sample_plugin_def sample_file_def soft_reload_steps_def
        full_path_def plugins_folder_def)
  note t = enable_failed_reload_starts_nothing[OF r s n a]
  have e1: "effects (enable ''P'' ?S) = [SetEnabled ''P'' True, SetStatus ''P'' True, SetStatus ''P'' True, StopPlugin (Some 0),
          UnpatchAll ''P'', RemoveStyle ''P'', Deregister ''P'', ReadFile ''/BD/plugins/p.plugin.js'',
          ConvertPlugin ''p.plugin.js'',
          Warn ''[BdCompat] enable(): soft reload failed, starting old instance'',
          StartPlugin None]"
    unfolding t[THEN conjunct1] v soft_reload_warning_def by simp
  have p1: "plugins (enable ''P'' ?S) ''P'' = None"
    using t[THEN conjunct2, THEN conjunct1] unfolding v .
  have g1: "GeneratedPlugins (enable ''P'' ?S) = []"
    using t[THEN conjunct2, THEN conjunct2] unfolding v by simp
  show ?thesis using r s a e1 p1 g1 by (intro conjI)
qed

text \<open>
  The same input in full: the file of the registered, stopped plugin \<open>P\<close> was modified and
  its new content lacks metadata, so that \<open>convertPlugin\<close> throws "Incomplete plugin".
  After \<open>enable\<close> the old instance is still stopped and is in no registry; what
  \<open>convertPlugin\<close> had queued stays queued.
\<close>

lemma enable_failed_reload_example:
  "effects (enable ''P'' (sample_state (sample_plugin ''1.0.0'' (Sig 5) False)
         (sample_file (ThrowsAfterQueue (Error ''Incomplete plugin'') (sample_plugin [] NoSig False)))))
     = [SetEnabled ''P'' True, SetStatus ''P'' True, SetStatus ''P'' True, StopPlugin (Some 0),
        UnpatchAll ''P'', RemoveStyle ''P'', Deregister ''P'', ReadFile ''/BD/plugins/p.plugin.js'',
        ConvertPlugin ''p.plugin.js'',
        Warn ''[BdCompat] enable(): soft reload failed, starting old instance'', StartPlugin None]
   \<and> plugins (enable ''P'' (sample_state (sample_plugin ''1.0.0'' (Sig 5) False)
         (sample_file (ThrowsAfterQueue (Error ''Incomplete plugin'') (sample_plugin [] NoSig False)))))
       ''P'' = None
   \<and> GeneratedPlugins (enable ''P'' (sample_state (sample_plugin ''1.0.0'' (Sig 5) False)
         (sample_file (ThrowsAfterQueue (Error ''Incomplete plugin'') (sample_plugin [] NoSig False)))))
       = []
   \<and> queued (enable ''P'' (sample_state (sample_plugin ''1.0.0'' (Sig 5) False)
         (sample_file (ThrowsAfterQueue (Error ''Incomplete plugin'') (sample_plugin [] NoSig False)))))
       = [1]
   \<and> map_option p_started (objects (enable ''P'' (sample_state (sample_plugin ''1.0.0'' (Sig 5) False)
         (sample_file (ThrowsAfterQueue (Error ''Incomplete plugin'') (sample_plugin [] NoSig False)))))
       0) = Some False"
  by (simp add: enable_def resolvePluginByAny_def matches_any_def List.map_filter_def
      reload_wanted_def record_intent_def log_effect_def getFileSig_def falsy_sig_def
      softReloadBDPlugin_def safeStopPlugin_def stopPlugin_def isPluginEnabled_def
      convert_file_def push_queued_def addCustomPlugin_def
      full_path_def plugins_folder_def to_int32_def start_existing_def startPlugin_def
      stampFileSigOnCurrent_def sample_state_def sample_plugin_def sample_file_def Let_def)

text \<open>
  A running plugin whose file changed and assembles is soft-reloaded, but not restarted:
  stopping the old instance goes through its \<open>stop\<close> wrapper, which writes
  \<open>pluginsStatus[name] = false\<close> after \<open>softReloadBDPlugin\<close> has stored the status for
  \<open>addCustomPlugin\<close>; the new instance is registered disabled and no start is made.
\<close>

lemma enable_running_plugin_ends_stopped:
  "effects (enable ''P'' (sample_state (sample_plugin ''1.0.0'' (Sig 5) True)
         (sample_file (Assembles (sample_plugin ''1.1.0'' NoSig False)))))
     = [SetEnabled ''P'' True, SetStatus ''P'' True, SetStatus ''P'' True, StopPlugin (Some 0),
        UnpatchAll ''P'', RemoveStyle ''P'', Deregister ''P'', ReadFile ''/BD/plugins/p.plugin.js'',
        ConvertPlugin ''p.plugin.js'', Register ''P'', SetEnabled ''P'' False,
        SetEnabled ''P'' False, StampSig ''P'', QueueChangelog ''P'' ''1.0.0'' ''1.1.0'']
   \<and> plugins (enable ''P'' (sample_state (sample_plugin ''1.0.0'' (Sig 5) True)
         (sample_file (Assembles (sample_plugin ''1.1.0'' NoSig False))))) ''P'' = Some 1
   \<and> map_option p_started (objects (enable ''P'' (sample_state (sample_plugin ''1.0.0'' (Sig 5) True)
         (sample_file (Assembles (sample_plugin ''1.1.0'' NoSig False))))) 1) = Some False
   \<and> enabled (enable ''P'' (sample_state (sample_plugin ''1.0.0'' (Sig 5) True)
         (sample_file (Assembles (sample_plugin ''1.1.0'' NoSig False))))) ''P'' = Some False
   \<and> pluginsStatus (enable ''P'' (sample_state (sample_plugin ''1.0.0'' (Sig 5) True)
         (sample_file (Assembles (sample_plugin ''1.1.0'' NoSig False))))) ''P'' = Some False"
  by (simp add: enable_def resolvePluginByAny_def matches_any_def List.map_filter_def
      reload_wanted_def record_intent_def log_effect_def getFileSig_def falsy_sig_def
      softReloadBDPlugin_def safeStopPlugin_def stopPlugin_def isPluginEnabled_def
      convert_file_def push_queued_def addCustomPlugin_def
      full_path_def plugins_folder_def to_int32_def start_existing_def startPlugin_def
      stampFileSigOnCurrent_def sample_state_def sample_plugin_def sample_file_def Let_def)

text \<open>
  A stopped plugin whose file changed and assembles is soft-reloaded and the new instance
  is started.
\<close>

lemma enable_reloads_changed_file:
  "effects (enable ''P'' (sample_state (sample_plugin ''1.0.0'' (Sig 5) False)
         (sample_file (Assembles (sample_plugin ''1.1.0'' NoSig False)))))
     = [SetEnabled ''P'' True, SetStatus ''P'' True, SetStatus ''P'' True, StopPlugin (Some 0),
        UnpatchAll ''P'', RemoveStyle ''P'', Deregister ''P'', ReadFile ''/BD/plugins/p.plugin.js'',
        ConvertPlugin ''p.plugin.js'', Register ''P'', SetEnabled ''P'' False,
        SetEnabled ''P'' True, StartPlugin (Some 1), StampSig ''P'',
        QueueChangelog ''P'' ''1.0.0'' ''1.1.0'']
   \<and> plugins (enable ''P'' (sample_state (sample_plugin ''1.0.0'' (Sig 5) False)
         (sample_file (Assembles (sample_plugin ''1.1.0'' NoSig False))))) ''P'' = Some 1
   \<and> map_option p_started (objects (enable ''P'' (sample_state (sample_plugin ''1.0.0'' (Sig 5) False)
         (sample_file (Assembles (sample_plugin ''1.1.0'' NoSig False))))) 1) = Some True"
  by (simp add: enable_def resolvePluginByAny_def matches_any_def List.map_filter_def
      reload_wanted_def record_intent_def log_effect_def getFileSig_def falsy_sig_def
      softReloadBDPlugin_def safeStopPlugin_def stopPlugin_def isPluginEnabled_def
      convert_file_def push_queued_def addCustomPlugin_def
      full_path_def plugins_folder_def to_int32_def start_existing_def startPlugin_def
      stampFileSigOnCurrent_def sample_state_def sample_plugin_def sample_file_def Let_def)

text \<open>
  The reload condition asks that the file's signature can be read: a plugin without a
  stamped signature whose file is not on disk is started as it is.
\<close>

lemma enable_unreadable_file_starts_directly:
  "stamped_sig (sample_state (sample_plugin ''1.0.0'' NoSig False) Map.empty)
      (sample_plugin ''1.0.0'' NoSig False) = NoSig
   \<and> effects (enable ''P'' (sample_state (sample_plugin ''1.0.0'' NoSig False) Map.empty))
       = [SetEnabled ''P'' True, SetStatus ''P'' True, StartPlugin (Some 0), StampSig ''P'']"
  by (simp add: stamped_sig_def current_instance_def enable_def resolvePluginByAny_def matches_any_def List.map_filter_def
      reload_wanted_def record_intent_def log_effect_def getFileSig_def falsy_sig_def
      softReloadBDPlugin_def safeStopPlugin_def stopPlugin_def isPluginEnabled_def
      convert_file_def push_queued_def addCustomPlugin_def
      full_path_def plugins_folder_def to_int32_def start_existing_def startPlugin_def
      stampFileSigOnCurrent_def sample_state_def sample_plugin_def sample_file_def Let_def)

end
